theory Spec2Isabelle
  imports Main "HOL-Library.Sublist"
begin

section \<open>Python values used by \<^verbatim>\<open>lang/lang-check.py\<close>\<close>

text \<open>
  A Python \<^verbatim>\<open>str\<close> is a sequence of Unicode code points; \<^verbatim>\<open>len\<close> counts code
  points. A string is therefore a list of code points, each a natural number, and
  \<open>ustr ''abc''\<close> writes the string of an ASCII literal. The integers of the script
  (\<^verbatim>\<open>cols\<close>, \<^verbatim>\<open>rows\<close>, \<^verbatim>\<open>lines\<close>) are Python's unbounded integers.
\<close>

type_synonym str = "nat list"

abbreviation ustr :: "string \<Rightarrow> str" where
  "ustr s \<equiv> map of_char s"

text \<open>
  The exceptions the script can raise. \<^verbatim>\<open>RuntimeError\<close> carries the two arguments of
  its message, \<^verbatim>\<open>"Unknown display definition %s on line %d"\<close>.
\<close>

datatype exception =
    FileNotFoundError
  | RuntimeError str int
  | ValueError
  | TypeError
  | UnboundLocalError
  | IndexError
  | UnicodeEncodeError
  | UnicodeDecodeError

text \<open>
  The tables of the Unicode database that the standard library consults, and the
  interpreter's limit on the digits of an integer literal, are not part of the script:
  they are taken as a parameter.
  \<^item> \<open>isalnum\<close> is \<^verbatim>\<open>str.isalnum\<close> on one character (also the alphanumeric part of the
    regular expression class \<^verbatim>\<open>\w\<close>);
  \<^item> \<open>decimal\<close> gives the value of a decimal digit (\<^verbatim>\<open>\d\<close>, and the digits \<^verbatim>\<open>int\<close>
    accepts);
  \<^item> \<open>unicode_name\<close> resolves the name of a \<^verbatim>\<open>\N{...}\<close> escape;
  \<^item> \<open>max_str_digits\<close> is \<^verbatim>\<open>sys.get_int_max_str_digits()\<close>, \<open>0\<close> when there is no limit.
\<close>

record runtime =
  isalnum :: "nat \<Rightarrow> bool"
  decimal :: "nat \<Rightarrow> nat option"
  unicode_name :: "str \<Rightarrow> nat option"
  max_str_digits :: nat

text \<open>The tables on ASCII, where no character has a name: enough to run ASCII inputs.\<close>

definition ascii_runtime :: runtime where
  "ascii_runtime =
     \<lparr> isalnum = (\<lambda>c. (48 \<le> c \<and> c \<le> 57) \<or> (65 \<le> c \<and> c \<le> 90) \<or> (97 \<le> c \<and> c \<le> 122)),
       decimal = (\<lambda>c. if 48 \<le> c \<and> c \<le> 57 then Some (c - 48) else None),
       unicode_name = (\<lambda>n. None),
       max_str_digits = 4300 \<rparr>"

subsection \<open>String methods\<close>

text \<open>
  \<^verbatim>\<open>str.isspace\<close> on one character: the white space of the Unicode database, which
  \<^verbatim>\<open>str.strip()\<close> removes.
\<close>

definition isspace :: "nat \<Rightarrow> bool" where
  "isspace c \<longleftrightarrow>
     (9 \<le> c \<and> c \<le> 13) \<or> (28 \<le> c \<and> c \<le> 32) \<or> c = 133 \<or> c = 160 \<or> c = 5760 \<or>
     (8192 \<le> c \<and> c \<le> 8202) \<or> c = 8232 \<or> c = 8233 \<or> c = 8239 \<or> c = 8287 \<or> c = 12288"

text \<open>\<^verbatim>\<open>text.strip()\<close> and \<^verbatim>\<open>text.strip(chars)\<close>.\<close>

definition strip :: "str \<Rightarrow> str" where
  "strip text = rev (dropWhile isspace (rev (dropWhile isspace text)))"

definition strip_chars :: "str \<Rightarrow> str \<Rightarrow> str" where
  "strip_chars chars text =
     rev (dropWhile (\<lambda>c. c \<in> set chars) (rev (dropWhile (\<lambda>c. c \<in> set chars) text)))"

text \<open>
  \<^verbatim>\<open>text.split(sep)\<close> for a separator of one character: every occurrence separates, empty
  pieces are kept, and the result is never empty.
\<close>

fun split_on :: "nat \<Rightarrow> str \<Rightarrow> str list" where
  "split_on sep [] = [[]]"
| "split_on sep (c # cs) =
     (if c = sep then [] # split_on sep cs
      else (case split_on sep cs of
              [] \<Rightarrow> [[c]]
            | p # ps \<Rightarrow> (c # p) # ps))"

text \<open>\<^verbatim>\<open>sep.join(parts)\<close>.\<close>

fun join :: "str \<Rightarrow> str list \<Rightarrow> str" where
  "join sep [] = []"
| "join sep [p] = p"
| "join sep (p # q # ps) = p @ sep @ join sep (q # ps)"

text \<open>
  \<^verbatim>\<open>text.expandtabs(tabsize)\<close>: a tab becomes the spaces that reach the next multiple of
  \<open>tabsize\<close>; the column starts again after a line feed or a carriage return.
\<close>

fun expandtabs :: "nat \<Rightarrow> nat \<Rightarrow> str \<Rightarrow> str" where
  "expandtabs tabsize line_pos [] = []"
| "expandtabs tabsize line_pos (c # cs) =
     (if c = 9 then
        (if tabsize > 0 then
           (let incr = tabsize - line_pos mod tabsize
            in replicate incr 32 @ expandtabs tabsize (line_pos + incr) cs)
         else expandtabs tabsize line_pos cs)
      else c # expandtabs tabsize (if c = 10 \<or> c = 13 then 0 else line_pos + 1) cs)"

subsection \<open>\<^verbatim>\<open>int(val)\<close>\<close>

text \<open>
  \<^verbatim>\<open>int\<close> of a string, base ten. A string that is not ASCII first has its Unicode white
  space turned into spaces and its decimal digits into ASCII digits, and is cut after the
  first other character, which becomes a question mark. Then: white space of C, a sign,
  digits with single underscores between them, white space of C, the end. \<open>None\<close> is
  \<^verbatim>\<open>ValueError\<close>.
\<close>

fun transform_decimal_and_space :: "runtime \<Rightarrow> str \<Rightarrow> str" where
  "transform_decimal_and_space rt [] = []"
| "transform_decimal_and_space rt (c # cs) =
     (if c < 127 then c # transform_decimal_and_space rt cs
      else if isspace c then 32 # transform_decimal_and_space rt cs
      else (case decimal rt c of
              None \<Rightarrow> [63]
            | Some d \<Rightarrow> (48 + d) # transform_decimal_and_space rt cs))"

definition c_isspace :: "nat \<Rightarrow> bool" where
  "c_isspace c \<longleftrightarrow> (9 \<le> c \<and> c \<le> 13) \<or> c = 32"

definition ascii_digit :: "nat \<Rightarrow> bool" where
  "ascii_digit c \<longleftrightarrow> 48 \<le> c \<and> c \<le> 57"

text \<open>
  The scan of the digits: \<open>prev\<close> is the character before. An underscore after an
  underscore, or last, is refused.
\<close>

fun digits_scan :: "nat \<Rightarrow> str \<Rightarrow> bool" where
  "digits_scan prev [] = (prev \<noteq> 95)"
| "digits_scan prev (c # cs) =
     (if c = 95 then prev \<noteq> 95 \<and> digits_scan c cs else digits_scan c cs)"

fun digits_value :: "nat \<Rightarrow> str \<Rightarrow> nat" where
  "digits_value acc [] = acc"
| "digits_value acc (c # cs) = digits_value (10 * acc + (c - 48)) cs"

definition py_int :: "runtime \<Rightarrow> str \<Rightarrow> int option" where
  "py_int rt val =
     (let buffer = (if list_all (\<lambda>c. c < 128) val then val else transform_decimal_and_space rt val);
          s1 = dropWhile c_isspace buffer;
          negative = (s1 \<noteq> [] \<and> hd s1 = 45);
          s2 = (if s1 \<noteq> [] \<and> (hd s1 = 43 \<or> hd s1 = 45) then tl s1 else s1);
          body = takeWhile (\<lambda>c. ascii_digit c \<or> c = 95) s2;
          rest = dropWhile (\<lambda>c. ascii_digit c \<or> c = 95) s2;
          digits = filter ascii_digit body
      in if body \<noteq> [] \<and> hd body \<noteq> 95 \<and> digits_scan 0 body \<and> dropWhile c_isspace rest = [] \<and>
            \<not> (max_str_digits rt > 0 \<and> length digits > max_str_digits rt)
         then Some (if negative then - int (digits_value 0 digits) else int (digits_value 0 digits))
         else None)"

subsection \<open>The \<^verbatim>\<open>unicode_escape\<close> codec\<close>

text \<open>
  \<^verbatim>\<open>text.encode('ascii')\<close> refuses a string with a code point above 127. On the bytes,
  \<^verbatim>\<open>decode('unicode_escape')\<close> copies every byte but the backslash, and reads after a
  backslash: a line feed (dropped), one of \<^verbatim>\<open>\ ' " b f t n r v a\<close>, up to three octal
  digits, \<^verbatim>\<open>x\<close>, \<^verbatim>\<open>u\<close> or \<^verbatim>\<open>U\<close> with two, four or eight hexadecimal digits, or
  \<^verbatim>\<open>N{name}\<close>; before any other character the backslash stays. A backslash at the
  end, too few hexadecimal digits, a value above \<^verbatim>\<open>0x10FFFF\<close> and a bad name are errors.
\<close>

definition ascii_encode :: "str \<Rightarrow> exception + str" where
  "ascii_encode text = (if list_all (\<lambda>c. c < 128) text then Inr text else Inl UnicodeEncodeError)"

definition emit :: "str \<Rightarrow> exception + str \<Rightarrow> exception + str" where
  "emit cs r = (case r of Inl e \<Rightarrow> Inl e | Inr t \<Rightarrow> Inr (cs @ t))"

definition octal_digit :: "nat \<Rightarrow> bool" where
  "octal_digit c \<longleftrightarrow> 48 \<le> c \<and> c \<le> 55"

definition hex_digit :: "nat \<Rightarrow> bool" where
  "hex_digit c \<longleftrightarrow> (48 \<le> c \<and> c \<le> 57) \<or> (97 \<le> c \<and> c \<le> 102) \<or> (65 \<le> c \<and> c \<le> 70)"

definition hex_value :: "nat \<Rightarrow> nat" where
  "hex_value c = (if 48 \<le> c \<and> c \<le> 57 then c - 48 else if 97 \<le> c \<and> c \<le> 102 then c - 87 else c - 55)"

fun radix_value :: "nat \<Rightarrow> nat \<Rightarrow> nat list \<Rightarrow> nat" where
  "radix_value base ch [] = ch"
| "radix_value base ch (d # ds) = radix_value base (base * ch + d) ds"

text \<open>\<open>hexescape count s\<close>: the value of the first \<open>count\<close> characters, all hexadecimal.\<close>

definition hexescape :: "nat \<Rightarrow> str \<Rightarrow> nat option" where
  "hexescape count s =
     (if length s \<ge> count \<and> list_all hex_digit (take count s)
      then (let ch = radix_value 16 0 (map hex_value (take count s))
            in if ch > 1114111 then None else Some ch)
      else None)"

fun unicode_escape_decode :: "runtime \<Rightarrow> str \<Rightarrow> exception + str" where
  "unicode_escape_decode rt [] = Inr []"
| "unicode_escape_decode rt [c] = (if c = 92 then Inl UnicodeDecodeError else Inr [c])"
| "unicode_escape_decode rt (c # e # s) =
     (if c \<noteq> 92 then emit [c] (unicode_escape_decode rt (e # s))
      else if e = 10 then unicode_escape_decode rt s
      else if e = 92 then emit [92] (unicode_escape_decode rt s)
      else if e = 39 then emit [39] (unicode_escape_decode rt s)
      else if e = 34 then emit [34] (unicode_escape_decode rt s)
      else if e = 98 then emit [8] (unicode_escape_decode rt s)
      else if e = 102 then emit [12] (unicode_escape_decode rt s)
      else if e = 116 then emit [9] (unicode_escape_decode rt s)
      else if e = 110 then emit [10] (unicode_escape_decode rt s)
      else if e = 114 then emit [13] (unicode_escape_decode rt s)
      else if e = 118 then emit [11] (unicode_escape_decode rt s)
      else if e = 97 then emit [7] (unicode_escape_decode rt s)
      else if octal_digit e then
        (let digits = takeWhile octal_digit (take 2 s)
         in emit [radix_value 8 0 (map (\<lambda>d. d - 48) (e # digits))]
              (unicode_escape_decode rt (drop (length digits) s)))
      else if e = 120 then
        (case hexescape 2 s of
           None \<Rightarrow> Inl UnicodeDecodeError
         | Some ch \<Rightarrow> emit [ch] (unicode_escape_decode rt (drop 2 s)))
      else if e = 117 then
        (case hexescape 4 s of
           None \<Rightarrow> Inl UnicodeDecodeError
         | Some ch \<Rightarrow> emit [ch] (unicode_escape_decode rt (drop 4 s)))
      else if e = 85 then
        (case hexescape 8 s of
           None \<Rightarrow> Inl UnicodeDecodeError
         | Some ch \<Rightarrow> emit [ch] (unicode_escape_decode rt (drop 8 s)))
      else if e = 78 then
        (case s of
           [] \<Rightarrow> Inl UnicodeDecodeError
         | b # t \<Rightarrow>
            (let name = takeWhile (\<lambda>x. x \<noteq> 125) t
             in if b = 123 \<and> length name < length t \<and> name \<noteq> []
                then (case unicode_name rt name of
                        None \<Rightarrow> Inl UnicodeDecodeError
                      | Some ch \<Rightarrow> emit [ch] (unicode_escape_decode rt (drop (Suc (length name)) t)))
                else Inl UnicodeDecodeError))
      else emit [92, e] (unicode_escape_decode rt s))"

section \<open>\<^verbatim>\<open>textwrap.TextWrapper(width=cols).wrap(text)\<close>\<close>

text \<open>
  The wrapper is built with its defaults: tabs are expanded (tab size 8), white space is
  replaced by spaces, long words are broken, breaks are allowed after the hyphens of a
  compound word, white space at the start and end of a line is dropped, the indents are
  empty, and there is no limit on the lines.
\<close>

subsection \<open>\<^verbatim>\<open>_munge_whitespace\<close>\<close>

text \<open>The wrapper's own white space, \<^verbatim>\<open>'\t\n\x0b\x0c\r '\<close>.\<close>

definition tw_whitespace :: "nat \<Rightarrow> bool" where
  "tw_whitespace c \<longleftrightarrow> (9 \<le> c \<and> c \<le> 13) \<or> c = 32"

definition munge_whitespace :: "str \<Rightarrow> str" where
  "munge_whitespace text = map (\<lambda>c. if tw_whitespace c then 32 else c) (expandtabs 8 0 text)"

subsection \<open>\<^verbatim>\<open>_split\<close>: the chunks of \<^verbatim>\<open>wordsep_re\<close>\<close>

text \<open>
  The character classes of the expression: \<^verbatim>\<open>\w\<close>, \<^verbatim>\<open>\d\<close>, the letters
  \<^verbatim>\<open>[^\d\W]\<close> and the word punctuation \<^verbatim>\<open>[\w!"'&.,?]\<close>.
\<close>

definition re_word :: "runtime \<Rightarrow> nat \<Rightarrow> bool" where
  "re_word rt c \<longleftrightarrow> isalnum rt c \<or> c = 95"

definition re_digit :: "runtime \<Rightarrow> nat \<Rightarrow> bool" where
  "re_digit rt c \<longleftrightarrow> decimal rt c \<noteq> None"

definition letter :: "runtime \<Rightarrow> nat \<Rightarrow> bool" where
  "letter rt c \<longleftrightarrow> re_word rt c \<and> \<not> re_digit rt c"

definition word_punct :: "runtime \<Rightarrow> nat \<Rightarrow> bool" where
  "word_punct rt c \<longleftrightarrow> re_word rt c \<or> c = 33 \<or> c = 34 \<or> c = 39 \<or> c = 38 \<or> c = 46 \<or> c = 44 \<or> c = 63"

text \<open>
  In the functions below \<open>behind\<close> is the text before the position, last character
  first, and the other list is the text from the position on.

  A hyphen ends a chunk when two letters, or letter-hyphen-letter, stand before it
  (\<^verbatim>\<open>(?<=lt{2}-) | (?<=lt-lt-)\<close>) and a letter, an optional hyphen and a letter follow
  (\<^verbatim>\<open>(?= lt -? lt)\<close>).
\<close>

definition hyphen_behind :: "runtime \<Rightarrow> str \<Rightarrow> bool" where
  "hyphen_behind rt behind =
     (case behind of
        a # b # further \<Rightarrow>
          (letter rt a \<and> letter rt b) \<or>
          (letter rt a \<and> b = 45 \<and> (case further of c # _ \<Rightarrow> letter rt c | [] \<Rightarrow> False))
      | _ \<Rightarrow> False)"

definition hyphen_ahead :: "runtime \<Rightarrow> str \<Rightarrow> bool" where
  "hyphen_ahead rt ahead =
     (case ahead of
        a # b # further \<Rightarrow>
          letter rt a \<and>
          ((b = 45 \<and> (case further of c # _ \<Rightarrow> letter rt c | [] \<Rightarrow> False)) \<or> letter rt b)
      | _ \<Rightarrow> False)"

text \<open>
  An em-dash stands at the position: word punctuation before, then two hyphens or more,
  then a word character (\<^verbatim>\<open>(?<=wp) -{2,} (?=\w)\<close>).
\<close>

definition em_dash :: "runtime \<Rightarrow> str \<Rightarrow> str \<Rightarrow> bool" where
  "em_dash rt behind ahead =
     (case behind of
        [] \<Rightarrow> False
      | p # _ \<Rightarrow>
          word_punct rt p \<and> length (takeWhile (\<lambda>c. c = 45) ahead) \<ge> 2 \<and>
          (case dropWhile (\<lambda>c. c = 45) ahead of [] \<Rightarrow> False | d # _ \<Rightarrow> re_word rt d))"

text \<open>
  The lazy run of characters that are not white space (\<^verbatim>\<open>nws+?\<close>), one character of
  it already taken: the number of characters the chunk takes further. It stops after a
  hyphen of a compound word, before white space or at the end of the text, or before an
  em-dash, the alternatives tried in this order at every length.
\<close>

fun word_more :: "runtime \<Rightarrow> str \<Rightarrow> str \<Rightarrow> nat" where
  "word_more rt behind [] = 0"
| "word_more rt behind (c # cs) =
     (if c = 45 \<and> hyphen_behind rt behind \<and> hyphen_ahead rt cs then 1
      else if tw_whitespace c then 0
      else if em_dash rt behind (c # cs) then 0
      else Suc (word_more rt (c # behind) cs))"

text \<open>
  The number of characters the chunk at the position takes after its first character
  \<open>c\<close>: a run of white space, an em-dash, or a word.
\<close>

definition chunk_more :: "runtime \<Rightarrow> str \<Rightarrow> nat \<Rightarrow> str \<Rightarrow> nat" where
  "chunk_more rt behind c cs =
     (if tw_whitespace c then length (takeWhile tw_whitespace cs)
      else if em_dash rt behind (c # cs) then length (takeWhile (\<lambda>x. x = 45) cs)
      else word_more rt (c # behind) cs)"

text \<open>
  \<^verbatim>\<open>wordsep_re.split(text)\<close>: the expression matches at every position of the text, so
  the pieces between the matches are empty and the chunks are the matches, one after
  the other.
\<close>

fun wordsep_split :: "runtime \<Rightarrow> str \<Rightarrow> str \<Rightarrow> str list" where
  "wordsep_split rt behind [] = []"
| "wordsep_split rt behind (c # cs) =
     (let n = chunk_more rt behind c cs
      in (c # take n cs) # wordsep_split rt (rev (take n cs) @ c # behind) (drop n cs))"

definition tw_split :: "runtime \<Rightarrow> str \<Rightarrow> str list" where
  "tw_split rt text = filter (\<lambda>c. c \<noteq> []) (wordsep_split rt [] text)"

subsection \<open>\<^verbatim>\<open>_handle_long_word\<close>\<close>

text \<open>\<^verbatim>\<open>chunk.rfind('-', 0, space_left)\<close>, \<open>None\<close> for \<open>-1\<close>.\<close>

definition rfind_hyphen :: "str \<Rightarrow> nat \<Rightarrow> nat option" where
  "rfind_hyphen chunk space_left =
     (case dropWhile (\<lambda>c. c \<noteq> 45) (rev (take space_left chunk)) of
        [] \<Rightarrow> None
      | h # front \<Rightarrow> Some (length front))"

text \<open>
  The chunks are kept in reading order, the next chunk first (the code reverses the list
  and works at its end). The result is the chunks and the line, both updated.
\<close>

fun handle_long_word :: "str list \<Rightarrow> str list \<Rightarrow> nat \<Rightarrow> nat \<Rightarrow> str list \<times> str list" where
  "handle_long_word [] cur_line cur_len width = ([], cur_line)"
| "handle_long_word (chunk # chunks) cur_line cur_len width =
     (let space_left = (if width < 1 then 1 else width - cur_len);
          end' = (if length chunk > space_left then
                   (case rfind_hyphen chunk space_left of
                      None \<Rightarrow> space_left
                    | Some hyphen \<Rightarrow>
                        if hyphen > 0 \<and> list_ex (\<lambda>c. c \<noteq> 45) (take hyphen chunk)
                        then hyphen + 1 else space_left)
                 else space_left)
      in (drop end' chunk # chunks, cur_line @ [take end' chunk]))"

subsection \<open>\<^verbatim>\<open>_wrap_chunks\<close>\<close>

text \<open>The inner loop: the chunks that fit on the current line.\<close>

fun fill_line :: "nat \<Rightarrow> str list \<Rightarrow> str list \<Rightarrow> nat \<Rightarrow> str list \<times> str list \<times> nat" where
  "fill_line width [] cur_line cur_len = ([], cur_line, cur_len)"
| "fill_line width (chunk # chunks) cur_line cur_len =
     (if cur_len + length chunk \<le> width
      then fill_line width chunks (cur_line @ [chunk]) (cur_len + length chunk)
      else (chunk # chunks, cur_line, cur_len))"

text \<open>One turn of the outer loop, entered with chunks left: one line is made.\<close>

definition wrap_line :: "nat \<Rightarrow> str list \<Rightarrow> str list \<Rightarrow> str list \<times> str list" where
  "wrap_line width chunks lines =
     (let chunks1 = (if strip (hd chunks) = [] \<and> lines \<noteq> [] then tl chunks else chunks);
          (chunks2, cur_line, cur_len) = fill_line width chunks1 [] 0;
          (chunks3, cur_line1) =
            (if chunks2 \<noteq> [] \<and> length (hd chunks2) > width
             then handle_long_word chunks2 cur_line cur_len width
             else (chunks2, cur_line));
          cur_line2 = (if cur_line1 \<noteq> [] \<and> strip (last cur_line1) = []
                       then butlast cur_line1 else cur_line1)
      in (chunks3, if cur_line2 \<noteq> [] then lines @ [concat cur_line2] else lines))"

text \<open>
  The outer loop ends: every turn removes a chunk or shortens the first one. The measure
  is the number of chunks plus the number of their characters.
\<close>

definition chunks_size :: "str list \<Rightarrow> nat" where
  "chunks_size chunks = length chunks + length (concat chunks)"

lemma chunks_size_Cons [simp]: "chunks_size (c # cs) = Suc (length c + chunks_size cs)"
  by (simp add: chunks_size_def)

lemma chunks_size_Nil [simp]: "chunks_size [] = 0"
  by (simp add: chunks_size_def)

lemma fill_line_size:
  "fill_line width chunks cur_line cur_len = (chunks', cur_line', cur_len') \<Longrightarrow>
   chunks_size chunks' \<le> chunks_size chunks"
  by (induction width chunks cur_line cur_len rule: fill_line.induct) (auto split: if_splits)

lemma fill_line_progress:
  "fill_line width chunks cur_line cur_len = (chunks', cur_line', cur_len') \<Longrightarrow>
   chunks_size chunks' < chunks_size chunks \<or>
   (chunks' = chunks \<and> cur_line' = cur_line \<and> cur_len' = cur_len)"
proof (induction width chunks cur_line cur_len rule: fill_line.induct)
  case (1 width cur_line cur_len)
  then show ?case by simp
next
  case (2 width chunk chunks cur_line cur_len)
  show ?case
  proof (cases "cur_len + length chunk \<le> width")
    case True
    with 2 have "chunks_size chunks' \<le> chunks_size chunks"
      using fill_line_size by simp
    then show ?thesis by simp
  next
    case False
    with 2 show ?thesis by simp
  qed
qed

lemma handle_long_word_size:
  "handle_long_word chunks cur_line cur_len width = (chunks', cur_line') \<Longrightarrow>
   chunks_size chunks' \<le> chunks_size chunks"
  by (cases chunks) (auto simp: Let_def)

lemma handle_long_word_progress:
  assumes "handle_long_word (chunk # chunks) cur_line 0 width = (chunks', cur_line')"
    and "length chunk > width"
  shows "chunks_size chunks' < chunks_size (chunk # chunks)"
proof -
  have "\<exists>c. chunks' = c # chunks \<and> length c < length chunk"
    using assms by (auto simp: Let_def split: option.splits if_splits)
  then show ?thesis by auto
qed

lemma wrap_line_decreases:
  assumes "chunks \<noteq> []"
  shows "chunks_size (fst (wrap_line width chunks lines)) < chunks_size chunks"
proof -
  define chunks1 where "chunks1 = (if strip (hd chunks) = [] \<and> lines \<noteq> [] then tl chunks else chunks)"
  obtain chunks2 cur_line cur_len where f: "fill_line width chunks1 [] 0 = (chunks2, cur_line, cur_len)"
    by (metis prod_cases3)
  define r where "r = (if chunks2 \<noteq> [] \<and> length (hd chunks2) > width
             then handle_long_word chunks2 cur_line cur_len width
             else (chunks2, cur_line))"
  have c': "fst (wrap_line width chunks lines) = fst r"
    using f unfolding wrap_line_def chunks1_def[symmetric]
    by (simp add: Let_def r_def split_beta)
  have le1: "chunks_size chunks1 \<le> chunks_size chunks"
    using assms(1) by (cases chunks) (auto simp: chunks1_def)
  have r_le: "chunks_size (fst r) \<le> chunks_size chunks2"
  proof (cases "chunks2 \<noteq> [] \<and> length (hd chunks2) > width")
    case True
    then have "r = handle_long_word chunks2 cur_line cur_len width" by (simp add: r_def)
    then show ?thesis
      using handle_long_word_size[of chunks2 cur_line cur_len width "fst r" "snd r"] by simp
  next
    case False
    then show ?thesis by (auto simp: r_def)
  qed
  from fill_line_progress[OF f] show ?thesis
  proof
    assume "chunks_size chunks2 < chunks_size chunks1"
    with le1 r_le c' show ?thesis by simp
  next
    assume same: "chunks2 = chunks1 \<and> cur_line = [] \<and> cur_len = 0"
    show ?thesis
    proof (cases "strip (hd chunks) = [] \<and> lines \<noteq> []")
      case True
      then have "chunks_size chunks1 < chunks_size chunks"
        using assms(1) by (cases chunks) (auto simp: chunks1_def)
      with r_le same c' show ?thesis by simp
    next
      case False
      then have c1: "chunks1 = chunks" by (auto simp: chunks1_def)
      obtain chunk rest where ch: "chunks = chunk # rest" using assms(1) by (cases chunks) auto
      have nofit: "\<not> (0 + length chunk \<le> width)"
        using f same c1 ch by (auto split: if_splits dest: fill_line_size)
      then have long: "length chunk > width" by simp
      obtain a b where hl: "handle_long_word (chunk # rest) [] 0 width = (a, b)" by (metis surj_pair)
      have "r = (a, b)" unfolding r_def using same c1 ch long hl by simp
      with handle_long_word_progress[OF hl long] c' ch show ?thesis by simp
    qed
  qed
qed

text \<open>The outer loop, \<^verbatim>\<open>while chunks:\<close>, from the chunks left and the lines made.\<close>

function wrap_chunks :: "nat \<Rightarrow> str list \<Rightarrow> str list \<Rightarrow> str list" where
  "wrap_chunks width chunks lines =
     (if chunks = [] then lines
      else (case wrap_line width chunks lines of
              (chunks', lines') \<Rightarrow> wrap_chunks width chunks' lines'))"
  by pat_completeness auto
termination
  by (relation "measure (\<lambda>(width, chunks, lines). chunks_size chunks)")
     (simp_all add: split_beta wrap_line_decreases)

declare wrap_chunks.simps [simp del]

lemma wrap_chunks_Nil [simp]: "wrap_chunks width [] lines = lines"
  by (subst wrap_chunks.simps) simp

lemma wrap_chunks_step:
  "chunks \<noteq> [] \<Longrightarrow>
   wrap_chunks width chunks lines =
     wrap_chunks width (fst (wrap_line width chunks lines)) (snd (wrap_line width chunks lines))"
  by (subst wrap_chunks.simps) (simp add: split_beta)

subsection \<open>\<^verbatim>\<open>wrap\<close>\<close>

text \<open>
  The chunks are computed first; then \<^verbatim>\<open>_wrap_chunks\<close> compares the width with zero,
  which is a \<^verbatim>\<open>TypeError\<close> when the width is \<^verbatim>\<open>None\<close> and a \<^verbatim>\<open>ValueError\<close> when the
  width is not positive.
\<close>

definition wrap :: "runtime \<Rightarrow> int option \<Rightarrow> str \<Rightarrow> exception + str list" where
  "wrap rt width text =
     (let chunks = tw_split rt (munge_whitespace text)
      in case width of
           None \<Rightarrow> Inl TypeError
         | Some w \<Rightarrow> if w \<le> 0 then Inl ValueError else Inr (wrap_chunks (nat w) chunks []))"

section \<open>The script\<close>

subsection \<open>\<^verbatim>\<open>unescape\<close>\<close>

definition unescape :: "runtime \<Rightarrow> str \<Rightarrow> exception + str" where
  "unescape rt text =
     (if 92 \<notin> set text then Inr text
      else (case ascii_encode text of
              Inl e \<Rightarrow> Inl e
            | Inr bytes \<Rightarrow> unicode_escape_decode rt bytes))"

subsection \<open>What the script prints\<close>

text \<open>
  Every call of \<^verbatim>\<open>print\<close> is recorded, in order. A message is recorded by its format
  string (the constructor) and the values formatted into it, together with the colour
  attribute \<^verbatim>\<open>color_maybe\<close> applies when the output is a terminal (31 red,
  32 green, 33 yellow). The lines of \<^verbatim>\<open>print_truncated\<close> and \<^verbatim>\<open>print_wrapped\<close> are
  recorded by the arguments of the call; padding a line to \<open>cols\<close> columns is taken to
  fit in memory.
\<close>

datatype message =
    Start_lang_check str
  | End_lang_check str
  | No_display_definition int
  | Multiple_rows_odd_columns int
  | Source_longer_than_cols int int
  | Wrapped_source_longer_than_rows int int
  | Text_longer_than_definition int int int int
  | Unequal_count_of_escapes int
  | Differing_first_punctuation nat nat int
  | Differing_last_punctuation nat nat int
  | Short_translation int

datatype printed =
    Message nat message
  | Source_text
  | Translated_text
  | Truncated str int
  | Wrapped "str list" int int
  | Empty_line

definition red :: "message \<Rightarrow> printed" where
  "red text = Message 31 text"

definition green :: "message \<Rightarrow> printed" where
  "green text = Message 32 text"

definition yellow :: "message \<Rightarrow> printed" where
  "yellow text = Message 33 text"

definition print_source_translation ::
  "str \<Rightarrow> str \<Rightarrow> str list \<Rightarrow> str list \<Rightarrow> int \<Rightarrow> int \<Rightarrow> printed list" where
  "print_source_translation source translation wrapped_source wrapped_translation rows cols =
     (if rows = 1
      then [Source_text, Truncated source cols, Translated_text, Truncated translation cols]
      else [Source_text, Wrapped wrapped_source rows cols,
            Translated_text, Wrapped wrapped_translation rows cols])
     @ [Empty_line]"

text \<open>
  A step of the script prints, and then raises or gives a value. Steps run one after the
  other until one raises; what was printed before stays printed.
\<close>

type_synonym 'a step = "printed list \<times> (exception + 'a)"

definition seq :: "'a step \<Rightarrow> ('a \<Rightarrow> 'b step) \<Rightarrow> 'b step" where
  "seq m f =
     (case m of
        (out, Inl e) \<Rightarrow> (out, Inl e)
      | (out, Inr a) \<Rightarrow> (case f a of (out', r) \<Rightarrow> (out @ out', r)))"

definition quiet :: "exception + 'a \<Rightarrow> 'a step" where
  "quiet r = ([], r)"

subsection \<open>\<^verbatim>\<open>ign_char_first\<close>, \<^verbatim>\<open>ign_char_last\<close>\<close>

definition ign_char_first :: "runtime \<Rightarrow> nat \<Rightarrow> bool" where
  "ign_char_first rt c \<longleftrightarrow> isalnum rt c \<or> c = 37 \<or> c = 63"

definition ign_char_last :: "runtime \<Rightarrow> nat \<Rightarrow> bool" where
  "ign_char_last rt c \<longleftrightarrow> isalnum rt c \<or> c = 46 \<or> c = 39"

subsection \<open>\<^verbatim>\<open>parse_txt\<close>: the display definition of a frame\<close>

text \<open>
  The loop over the items of the comment line, \<^verbatim>\<open>for item in comment[1:]\<close>. Unpacking
  \<^verbatim>\<open>item.split('=')\<close> into \<^verbatim>\<open>key, val\<close> is a \<^verbatim>\<open>ValueError\<close> unless there are two
  pieces; \<open>None\<close> is Python's \<^verbatim>\<open>None\<close>.
\<close>

fun display_items ::
  "runtime \<Rightarrow> str list \<Rightarrow> int \<Rightarrow> str list \<Rightarrow> int option \<Rightarrow> int option \<Rightarrow>
   exception + (int option \<times> int option)" where
  "display_items rt comment lines [] cols rows = Inr (cols, rows)"
| "display_items rt comment lines (item # items) cols rows =
     (case split_on 61 item of
        [key, val] \<Rightarrow>
          if key = ustr ''c'' then
            (case py_int rt val of
               None \<Rightarrow> Inl ValueError
             | Some n \<Rightarrow> display_items rt comment lines items (Some n) rows)
          else if key = ustr ''r'' then
            (case py_int rt val of
               None \<Rightarrow> Inl ValueError
             | Some n \<Rightarrow> display_items rt comment lines items cols (Some n))
          else Inl (RuntimeError (join (ustr '' '') comment) lines)
      | _ \<Rightarrow> Inl ValueError)"

text \<open>
  The defaults. \<open>translation\<close> is the variable of that name as the previous turn of the
  loop left it: \<open>None\<close> in the first turn, where the variable is not yet bound and
  reading it is an \<^verbatim>\<open>UnboundLocalError\<close>. In \<^verbatim>\<open>cols != 20\<close> the columns may be \<^verbatim>\<open>None\<close>.
\<close>

definition display_defaults ::
  "bool \<Rightarrow> int \<Rightarrow> str option \<Rightarrow> int option \<Rightarrow> int option \<Rightarrow> (int option \<times> int) step" where
  "display_defaults no_warning lines translation cols rows =
     seq (if cols = None \<and> rows = None then
            seq (if \<not> no_warning then ([yellow (No_display_definition lines)], Inr ())
                 else ([], Inr ()))
              (\<lambda>_. case translation of
                      None \<Rightarrow> quiet (Inl UnboundLocalError)
                    | Some t \<Rightarrow> quiet (Inr (Some (int (length t)))))
          else quiet (Inr cols))
       (\<lambda>cols. case rows of
                 None \<Rightarrow> quiet (Inr (cols, 1))
               | Some r \<Rightarrow>
                   if r > 1 \<and> cols \<noteq> Some 20
                   then ([yellow (Multiple_rows_odd_columns lines)], Inr (cols, r))
                   else quiet (Inr (cols, r)))"

subsection \<open>\<^verbatim>\<open>parse_txt\<close>: the checks of a record\<close>

text \<open>The source text against the display definition (printed unless warnings are off).\<close>

definition check_source ::
  "bool \<Rightarrow> int \<Rightarrow> int \<Rightarrow> int \<Rightarrow> str \<Rightarrow> str list \<Rightarrow> printed list" where
  "check_source no_warning lines cols rows source wrapped_source =
     (let rows_count_source = int (length wrapped_source)
      in if \<not> no_warning then
           (if rows = 1 \<and> (int (length source) > cols \<or> rows_count_source > rows) then
              [yellow (Source_longer_than_cols cols lines), Truncated source cols, Empty_line]
            else if rows_count_source > rows then
              [yellow (Wrapped_source_longer_than_rows rows lines),
               Wrapped wrapped_source rows cols, Empty_line]
            else [])
         else [])"

text \<open>The length of the translation.\<close>

definition check_length ::
  "int \<Rightarrow> int \<Rightarrow> int \<Rightarrow> str \<Rightarrow> str \<Rightarrow> str list \<Rightarrow> str list \<Rightarrow> printed list" where
  "check_length lines cols rows source translation wrapped_source wrapped_translation =
     (let rows_count_translation = int (length wrapped_translation)
      in if rows_count_translation > rows \<or> (rows = 1 \<and> int (length translation) > cols) then
           red (Text_longer_than_definition lines cols rows (rows_count_translation - rows))
           # print_source_translation source translation wrapped_source wrapped_translation rows cols
         else [])"

text \<open>The count of \<^verbatim>\<open>%\<close> sequences.\<close>

definition check_escapes ::
  "int \<Rightarrow> int \<Rightarrow> int \<Rightarrow> str \<Rightarrow> str \<Rightarrow> str list \<Rightarrow> str list \<Rightarrow> printed list" where
  "check_escapes lines cols rows source translation wrapped_source wrapped_translation =
     (if count_list source 37 \<noteq> count_list translation 37 \<and> length translation > 0 then
        red (Unequal_count_of_escapes lines)
        # print_source_translation source translation wrapped_source wrapped_translation rows cols
      else [])"

text \<open>
  The first and last characters. \<^verbatim>\<open>source.strip()[-1]\<close> is an \<^verbatim>\<open>IndexError\<close> when the
  stripped string is empty; the source is indexed before the translation.
\<close>

definition last_char :: "str \<Rightarrow> exception + nat" where
  "last_char text = (if text = [] then Inl IndexError else Inr (last text))"

definition check_punctuation ::
  "runtime \<Rightarrow> bool \<Rightarrow> int \<Rightarrow> int \<Rightarrow> int \<Rightarrow> str \<Rightarrow> str \<Rightarrow> str list \<Rightarrow> str list \<Rightarrow> unit step" where
  "check_punctuation rt no_warning lines cols rows source translation
       wrapped_source wrapped_translation =
     (if \<not> no_warning \<and> length source > 0 \<and> length translation > 0 then
        seq (quiet (last_char (strip source))) (\<lambda>source_end.
        seq (quiet (last_char (strip translation))) (\<lambda>translation_end.
          (let start_diff = (\<not> (ign_char_first rt (hd source) \<and> ign_char_first rt (hd translation))
                             \<and> hd source \<noteq> hd translation);
               end_diff = (\<not> (ign_char_last rt source_end \<and> ign_char_last rt translation_end)
                           \<and> source_end \<noteq> translation_end)
           in if start_diff \<or> end_diff then
                ((if start_diff
                  then [yellow (Differing_first_punctuation (hd source) (hd translation) lines)]
                  else [])
                 @ (if end_diff
                    then [yellow (Differing_last_punctuation (last source) (last translation) lines)]
                    else [])
                 @ print_source_translation source translation
                     wrapped_source wrapped_translation rows cols,
                 Inr ())
              else ([], Inr ()))))
      else ([], Inr ()))"

text \<open>
  The short translation. \<^verbatim>\<open>len(t) < len(s) / 2\<close> divides exactly, so it is
  \<open>2 * len(t) < len(s)\<close>.
\<close>

definition check_short ::
  "bool \<Rightarrow> int \<Rightarrow> int \<Rightarrow> int \<Rightarrow> str \<Rightarrow> str \<Rightarrow> str list \<Rightarrow> str list \<Rightarrow> printed list" where
  "check_short no_warning lines cols rows source translation wrapped_source wrapped_translation =
     (if \<not> no_warning \<and> length source > 0 \<and> length translation > 0 then
        (if 2 * length (strip translation) < length (strip source) then
           yellow (Short_translation lines)
           # print_source_translation source translation wrapped_source wrapped_translation rows cols
         else [])
      else [])"

text \<open>The checks of one record, in the order of the script.\<close>

definition check_record ::
  "runtime \<Rightarrow> bool \<Rightarrow> int \<Rightarrow> int \<Rightarrow> int \<Rightarrow> str \<Rightarrow> str \<Rightarrow> str list \<Rightarrow> str list \<Rightarrow> unit step" where
  "check_record rt no_warning lines cols rows source translation
       wrapped_source wrapped_translation =
     seq (check_source no_warning lines cols rows source wrapped_source, Inr ()) (\<lambda>_.
     seq (check_length lines cols rows source translation
            wrapped_source wrapped_translation, Inr ()) (\<lambda>_.
     seq (check_escapes lines cols rows source translation
            wrapped_source wrapped_translation, Inr ()) (\<lambda>_.
     seq (check_punctuation rt no_warning lines cols rows source translation
            wrapped_source wrapped_translation) (\<lambda>_.
     (check_short no_warning lines cols rows source translation
        wrapped_source wrapped_translation, Inr ())))))"

subsection \<open>\<^verbatim>\<open>parse_txt\<close>: the loop over the frames\<close>

text \<open>
  The open file is the text not yet read. \<^verbatim>\<open>src.readline()\<close> gives the text up to the
  next line feed, the line feed included, or what is left when there is none (the empty
  string at the end of the file); the file goes on after it.
\<close>

definition readline :: "str \<Rightarrow> str" where
  "readline src =
     (case dropWhile (\<lambda>c. c \<noteq> 10) src of
        [] \<Rightarrow> src
      | nl # rest \<Rightarrow> takeWhile (\<lambda>c. c \<noteq> 10) src @ [nl])"

definition after_readline :: "str \<Rightarrow> str" where
  "after_readline src = drop (length (readline src)) src"

text \<open>
  One turn of the loop, from the comment line to the last check, on the three lines read
  in it. It gives the translation, which the next turn finds in the variable. When
  \<^verbatim>\<open>wrap\<close> has returned, \<open>cols\<close> is an integer.
\<close>

definition frame :: "runtime \<Rightarrow> bool \<Rightarrow> int \<Rightarrow> str option \<Rightarrow> str \<Rightarrow> str \<Rightarrow> str \<Rightarrow> str step" where
  "frame rt no_warning lines translation comment_line source_line translation_line =
     (let comment = split_on 32 comment_line
      in seq (quiet (display_items rt comment lines (tl comment) None None)) (\<lambda>(cols, rows).
         seq (display_defaults no_warning lines translation cols rows) (\<lambda>(cols, rows).
           (let source = strip_chars [34] (butlast source_line);
                translation = strip_chars [34] (butlast translation_line);
                translation = (if translation = [92, 120, 48, 48] then [] else translation)
            in seq (quiet (unescape rt source)) (\<lambda>source.
               seq (quiet (unescape rt translation)) (\<lambda>translation.
               seq (quiet (wrap rt cols source)) (\<lambda>wrapped_source.
               seq (quiet (wrap rt cols translation)) (\<lambda>wrapped_translation.
               seq (case cols of
                      None \<Rightarrow> quiet (Inl TypeError)
                    | Some c \<Rightarrow>
                        check_record rt no_warning lines c rows source translation
                          wrapped_source wrapped_translation) (\<lambda>_.
               quiet (Inr translation))))))))))"

lemma length_readline: "length (readline src) \<le> length src"
proof (cases "dropWhile (\<lambda>c. c \<noteq> 10) src")
  case Nil
  show ?thesis unfolding readline_def Nil by simp
next
  case (Cons nl rest)
  have "length (takeWhile (\<lambda>c. c \<noteq> 10) src) + length (dropWhile (\<lambda>c. c \<noteq> 10) src) = length src"
    by (metis length_append takeWhile_dropWhile_id)
  with Cons show ?thesis by (simp add: readline_def)
qed

lemma length_after_readline: "length (after_readline src) = length src - length (readline src)"
  by (simp add: after_readline_def)

lemma after_readline_le: "length (after_readline src) \<le> length src"
  by (simp add: length_after_readline)

lemma after_readline_less:
  assumes "length (readline src) = Suc 0"
  shows "length (after_readline src) < length src"
  using assms length_readline[of src] by (simp add: length_after_readline)

lemma fourth_line_read:
  assumes "length (readline (after_readline (after_readline (after_readline src)))) = Suc 0"
  shows "length (after_readline (after_readline (after_readline (after_readline src)))) < length src"
proof -
  have "length (after_readline (after_readline (after_readline src))) \<le> length src"
    using after_readline_le[of src] after_readline_le[of "after_readline src"]
      after_readline_le[of "after_readline (after_readline src)"]
    by linarith
  with after_readline_less[OF assms] show ?thesis by linarith
qed

text \<open>
  The loop \<^verbatim>\<open>while True\<close>: the four lines of a frame are read, the frame is checked, and
  the loop goes on, four lines further, when the fourth line has one character. It ends
  because that character is read.
\<close>

function parse_loop :: "runtime \<Rightarrow> bool \<Rightarrow> str \<Rightarrow> int \<Rightarrow> str option \<Rightarrow> unit step" where
  "parse_loop rt no_warning src lines translation =
     (let comment_line = readline src;
          src1 = after_readline src;
          source_line = readline src1;
          src2 = after_readline src1;
          translation_line = readline src2;
          src3 = after_readline src2
      in case frame rt no_warning lines translation comment_line source_line translation_line of
           (out, Inl e) \<Rightarrow> (out, Inl e)
         | (out, Inr translation') \<Rightarrow>
             if length (readline src3) \<noteq> 1 then (out, Inr ())
             else (case parse_loop rt no_warning (after_readline src3) (lines + 4)
                          (Some translation') of
                     (out', r) \<Rightarrow> (out @ out', r)))"
  by pat_completeness auto
termination
  by (relation "measure (\<lambda>(rt, no_warning, src, lines, translation). length src)")
     (simp_all add: fourth_line_read)

declare parse_loop.simps [simp del]

subsection \<open>\<^verbatim>\<open>parse_txt\<close> and \<^verbatim>\<open>main\<close>\<close>

text \<open>
  The files are a map from the path to the text, as text mode gives it (decoded, every
  line end a line feed); \<^verbatim>\<open>open\<close> of a path that is not there is a
  \<^verbatim>\<open>FileNotFoundError\<close>.
\<close>

definition parse_txt :: "runtime \<Rightarrow> (str \<rightharpoonup> str) \<Rightarrow> str \<Rightarrow> bool \<Rightarrow> unit step" where
  "parse_txt rt files lang no_warning =
     (let file_path = (if lang = ustr ''en'' then ustr ''lang_en.txt''
                       else ustr ''lang_en_'' @ lang @ ustr ''.txt'')
      in seq ([green (Start_lang_check lang)], Inr ()) (\<lambda>_.
         seq (quiet (case files file_path of
                       None \<Rightarrow> Inl FileNotFoundError
                     | Some src \<Rightarrow> Inr src)) (\<lambda>src.
         seq (parse_loop rt no_warning src 1 None) (\<lambda>_.
         ([green (End_lang_check lang)], Inr ())))))"

text \<open>
  What goes to the standard error, and how \<^verbatim>\<open>main\<close> is left: by \<^verbatim>\<open>return\<close>, or by the
  \<^verbatim>\<open>SystemExit\<close> of \<^verbatim>\<open>sys.exit\<close>. \<^verbatim>\<open>parser.error(message)\<close> of \<^verbatim>\<open>argparse\<close> prints the usage
  and the message and calls \<^verbatim>\<open>sys.exit(2)\<close>. The script ends with \<^verbatim>\<open>exit(main())\<close>: the
  exit status of the process is the value returned, or the status of the \<^verbatim>\<open>SystemExit\<close>.
\<close>

datatype report = Traceback exception | Usage | Error_message exception

datatype 'a control = Return 'a | System_exit int

definition parser_error :: "exception \<Rightarrow> report list \<times> unit control" where
  "parser_error exc = ([Usage, Error_message exc], System_exit 2)"

definition main ::
  "runtime \<Rightarrow> (str \<rightharpoonup> str) \<Rightarrow> str \<Rightarrow> bool \<Rightarrow> printed list \<times> report list \<times> int control" where
  "main rt files lang no_warning =
     (case parse_txt rt files lang no_warning of
        (out, Inr _) \<Rightarrow> (out, [], Return 0)
      | (out, Inl exc) \<Rightarrow>
          (case parser_error exc of
             (err, System_exit status) \<Rightarrow> (out, Traceback exc # err, System_exit status)
           | (err, Return _) \<Rightarrow> (out, Traceback exc # err, Return 1)))"

fun exit_status :: "int control \<Rightarrow> int" where
  "exit_status (Return status) = status"
| "exit_status (System_exit status) = status"

subsection \<open>Language files\<close>

text \<open>A line of a file, and a text between quotes, to write files down.\<close>

definition lang_line :: "str \<Rightarrow> str" where
  "lang_line s = s @ [10]"

definition quoted :: "str \<Rightarrow> str" where
  "quoted s = [34] @ s @ [34]"

text \<open>The messages among what was printed.\<close>

fun messages :: "printed list \<Rightarrow> message list" where
  "messages [] = []"
| "messages (Message color_attr text # out) = text # messages out"
| "messages (p # out) = messages out"

text \<open>
  The five checks of a record, and the check a message belongs to. The two punctuation
  messages (first and last character) belong to one check.
\<close>

datatype check = Source_overflow | Overflow | Placeholder_count | Punctuation_drift | Short_translation_check

fun check_of :: "message \<Rightarrow> check option" where
  "check_of (Source_longer_than_cols cols lines) = Some Source_overflow"
| "check_of (Wrapped_source_longer_than_rows rows lines) = Some Source_overflow"
| "check_of (Text_longer_than_definition lines cols rows diff) = Some Overflow"
| "check_of (Unequal_count_of_escapes lines) = Some Placeholder_count"
| "check_of (Differing_first_punctuation a b lines) = Some Punctuation_drift"
| "check_of (Differing_last_punctuation a b lines) = Some Punctuation_drift"
| "check_of (Short_translation lines) = Some Short_translation_check"
| "check_of other = None"

text \<open>The checks that printed a message, in the order of the messages.\<close>

fun checks_printed :: "printed list \<Rightarrow> check list" where
  "checks_printed [] = []"
| "checks_printed (Message color_attr text # out) =
     (case check_of text of
        None \<Rightarrow> checks_printed out
      | Some c \<Rightarrow> c # checks_printed out)"
| "checks_printed (p # out) = checks_printed out"

text \<open>
  The diagnostics of a record, one for each message of a check: the two messages of the
  source overflow are one diagnostic, the messages of the first and of the last
  punctuation character are two.
\<close>

datatype diagnostic =
    Source_overflow_warning
  | Overflow_error
  | Placeholder_count_error
  | First_punctuation_warning
  | Last_punctuation_warning
  | Short_translation_warning

fun diagnostic_of :: "message \<Rightarrow> diagnostic option" where
  "diagnostic_of (Source_longer_than_cols cols lines) = Some Source_overflow_warning"
| "diagnostic_of (Wrapped_source_longer_than_rows rows lines) = Some Source_overflow_warning"
| "diagnostic_of (Text_longer_than_definition lines cols rows diff) = Some Overflow_error"
| "diagnostic_of (Unequal_count_of_escapes lines) = Some Placeholder_count_error"
| "diagnostic_of (Differing_first_punctuation a b lines) = Some First_punctuation_warning"
| "diagnostic_of (Differing_last_punctuation a b lines) = Some Last_punctuation_warning"
| "diagnostic_of (Short_translation lines) = Some Short_translation_warning"
| "diagnostic_of other = None"

text \<open>The diagnostics printed, in the order of the messages.\<close>

fun diagnostics_printed :: "printed list \<Rightarrow> diagnostic list" where
  "diagnostics_printed [] = []"
| "diagnostics_printed (Message color_attr text # out) =
     (case diagnostic_of text of
        None \<Rightarrow> diagnostics_printed out
      | Some d \<Rightarrow> d # diagnostics_printed out)"
| "diagnostics_printed (p # out) = diagnostics_printed out"

subsection \<open>The text a wrapping keeps\<close>

text \<open>
  The words of the specification of the wrapper. \<^verbatim>\<open>s.split()\<close> gives the words of a
  string, the runs of characters that are not white space (\<open>word\<close> is the word being
  read); the string with its white space normalized is its words joined by single
  spaces.
\<close>

fun split_words :: "str \<Rightarrow> str \<Rightarrow> str list" where
  "split_words word [] = (if word = [] then [] else [word])"
| "split_words word (c # cs) =
     (if isspace c then (if word = [] then split_words [] cs else word # split_words [] cs)
      else split_words (word @ [c]) cs)"

definition normalize_whitespace :: "str \<Rightarrow> str" where
  "normalize_whitespace s = join (ustr '' '') (split_words [] s)"

text \<open>The characters of a string that are not white space, in order.\<close>

definition non_space :: "str \<Rightarrow> str" where
  "non_space s = filter (\<lambda>c. \<not> isspace c) s"

text \<open>
  Chunks of white space and chunks that are words; a list of chunks alternates when each
  chunk is one or the other and a word is followed by white space; the chunks fit a
  width when every chunk that is not white space is within it.
\<close>

definition ws_chunk :: "str \<Rightarrow> bool" where
  "ws_chunk c \<longleftrightarrow> list_all isspace c"

definition word_chunk :: "str \<Rightarrow> bool" where
  "word_chunk c \<longleftrightarrow> c \<noteq> [] \<and> list_all (\<lambda>x. \<not> isspace x) c"

fun alternate :: "str list \<Rightarrow> bool" where
  "alternate [] = True"
| "alternate [c] = (ws_chunk c \<or> word_chunk c)"
| "alternate (c # d # cs) =
     ((ws_chunk c \<or> (word_chunk c \<and> ws_chunk d \<and> d \<noteq> [])) \<and> alternate (d # cs))"

definition fits :: "nat \<Rightarrow> str list \<Rightarrow> bool" where
  "fits width chunks \<longleftrightarrow> list_all (\<lambda>c. ws_chunk c \<or> length c \<le> width) chunks"

subsection \<open>The standard escape sequences\<close>

text \<open>
  The words of the specification of the decoder. The standard escape sequences, as a
  table: the characters that follow the backslash, and the character the sequence stands
  for (one of \<^verbatim>\<open>\ ' " a b f n r t v\<close>, one to three octal digits, \<^verbatim>\<open>x\<close>, \<^verbatim>\<open>u\<close> or \<^verbatim>\<open>U\<close>
  with two, four or eight hexadecimal digits, \<^verbatim>\<open>N{name}\<close>).
\<close>

inductive escape_sequence :: "runtime \<Rightarrow> str \<Rightarrow> nat \<Rightarrow> bool" for rt :: runtime where
  backslash: "escape_sequence rt [92] 92"
| single_quote: "escape_sequence rt [39] 39"
| double_quote: "escape_sequence rt [34] 34"
| bell: "escape_sequence rt [97] 7"
| backspace: "escape_sequence rt [98] 8"
| form_feed: "escape_sequence rt [102] 12"
| line_feed: "escape_sequence rt [110] 10"
| carriage_return: "escape_sequence rt [114] 13"
| horizontal_tab: "escape_sequence rt [116] 9"
| vertical_tab: "escape_sequence rt [118] 11"
| octal: "ds \<noteq> [] \<Longrightarrow> length ds \<le> 3 \<Longrightarrow> list_all octal_digit ds \<Longrightarrow>
          escape_sequence rt ds (radix_value 8 0 (map (\<lambda>d. d - 48) ds))"
| hex: "length hs = 2 \<Longrightarrow> list_all hex_digit hs \<Longrightarrow>
        escape_sequence rt (120 # hs) (radix_value 16 0 (map hex_value hs))"
| unicode16: "length hs = 4 \<Longrightarrow> list_all hex_digit hs \<Longrightarrow>
        escape_sequence rt (117 # hs) (radix_value 16 0 (map hex_value hs))"
| unicode32: "length hs = 8 \<Longrightarrow> list_all hex_digit hs \<Longrightarrow>
        radix_value 16 0 (map hex_value hs) \<le> 1114111 \<Longrightarrow>
        escape_sequence rt (85 # hs) (radix_value 16 0 (map hex_value hs))"
| named: "name \<noteq> [] \<Longrightarrow> 125 \<notin> set name \<Longrightarrow> unicode_name rt name = Some ch \<Longrightarrow>
        escape_sequence rt ([78, 123] @ name @ [125]) ch"

text \<open>
  \<open>replaced rt s t\<close>: every backslash of \<open>s\<close> starts a standard escape sequence, and
  \<open>t\<close> is \<open>s\<close> with each sequence replaced by its character. An octal sequence takes
  the digits that follow it, up to three.
\<close>

inductive replaced :: "runtime \<Rightarrow> str \<Rightarrow> str \<Rightarrow> bool" for rt :: runtime where
  empty: "replaced rt [] []"
| plain: "c \<noteq> 92 \<Longrightarrow> replaced rt s t \<Longrightarrow> replaced rt (c # s) (c # t)"
| escape: "escape_sequence rt q ch \<Longrightarrow> replaced rt s t \<Longrightarrow>
           \<not> (list_all octal_digit q \<and> length q < 3 \<and> s \<noteq> [] \<and> octal_digit (hd s)) \<Longrightarrow>
           replaced rt (92 # q @ s) (ch # t)"

section \<open>Properties\<close>

subsection \<open>Running the script\<close>

text \<open>The equations that run the script on a given file.\<close>

lemma replicate_numeral: "replicate (numeral k) x = x # replicate (pred_numeral k) x"
  by (simp add: numeral_eq_Suc)

lemmas run_simps = replicate_numeral main_def parse_txt_def parse_loop.simps frame_def seq_def quiet_def
  readline_def after_readline_def display_defaults_def check_record_def check_source_def
  check_length_def check_escapes_def check_punctuation_def check_short_def last_char_def
  print_source_translation_def red_def green_def yellow_def ign_char_first_def ign_char_last_def
  unescape_def ascii_encode_def emit_def octal_digit_def hex_digit_def hex_value_def hexescape_def
  wrap_def tw_split_def munge_whitespace_def tw_whitespace_def wrap_chunks.simps wrap_line_def
  rfind_hyphen_def chunk_more_def em_dash_def hyphen_behind_def hyphen_ahead_def
  word_punct_def letter_def re_word_def re_digit_def
  py_int_def c_isspace_def ascii_digit_def strip_def strip_chars_def isspace_def
  ascii_runtime_def parser_error_def lang_line_def quoted_def Let_def

lemma fst_seq: "fst (seq m f) = (case snd m of Inl e \<Rightarrow> fst m | Inr a \<Rightarrow> fst m @ fst (f a))"
  by (cases m) (auto simp: seq_def split: sum.splits prod.splits)

lemma snd_seq: "snd (seq m f) = (case snd m of Inl e \<Rightarrow> Inl e | Inr a \<Rightarrow> snd (f a))"
  by (cases m) (auto simp: seq_def split: sum.splits prod.splits)

subsection \<open>The count of \<^verbatim>\<open>%\<close> sequences\<close>



subsection \<open>The checks that print\<close>

lemma checks_printed_append: "checks_printed (xs @ ys) = checks_printed xs @ checks_printed ys"
  by (induction xs rule: checks_printed.induct) (simp_all split: option.splits)

lemma checks_printed_source:
  "checks_printed (check_source no_warning lines cols rows source wrapped_source) \<in> {[], [Source_overflow]}"
  by (simp add: check_source_def yellow_def Let_def)

lemma checks_printed_pst:
  "checks_printed (print_source_translation s t ws wt rows cols) = []"
  by (simp add: print_source_translation_def map_filter_simps)

lemma checks_printed_length:
  "checks_printed (check_length lines cols rows source translation ws wt) \<in> {[], [Overflow]}"
  by (simp add: check_length_def red_def Let_def print_source_translation_def)

lemma checks_printed_escapes:
  "checks_printed (check_escapes lines cols rows source translation ws wt) \<in> {[], [Placeholder_count]}"
  by (simp add: check_escapes_def red_def print_source_translation_def)

lemma checks_printed_punctuation:
  "checks_printed (fst (check_punctuation rt no_warning lines cols rows source translation ws wt))
     \<in> {[], [Punctuation_drift], [Punctuation_drift, Punctuation_drift]}"
  by (simp add: check_punctuation_def yellow_def Let_def
      print_source_translation_def fst_seq quiet_def checks_printed_append split: sum.splits)

lemma checks_printed_short:
  "checks_printed (check_short no_warning lines cols rows source translation ws wt) \<in> {[], [Short_translation_check]}"
  by (simp add: check_short_def yellow_def print_source_translation_def)

subsection \<open>The order of the checks\<close>

lemma diagnostics_printed_append:
  "diagnostics_printed (xs @ ys) = diagnostics_printed xs @ diagnostics_printed ys"
  by (induction xs rule: diagnostics_printed.induct) (simp_all split: option.splits)

lemma diagnostics_pst:
  "diagnostics_printed (print_source_translation s t ws wt rows cols) = []"
  by (simp add: print_source_translation_def)

lemma diagnostics_source:
  "diagnostics_printed (check_source no_warning lines cols rows source wrapped_source)
   = (if \<not> no_warning \<and> (int (length wrapped_source) > rows \<or> (rows = 1 \<and> int (length source) > cols))
      then [Source_overflow_warning] else [])"
  by (auto simp: check_source_def yellow_def Let_def)

lemma diagnostics_length:
  "diagnostics_printed (check_length lines cols rows source translation ws wrapped_translation)
   = (if int (length wrapped_translation) > rows \<or> (rows = 1 \<and> int (length translation) > cols)
      then [Overflow_error] else [])"
  by (simp add: check_length_def red_def Let_def diagnostics_pst)

lemma diagnostics_escapes:
  "diagnostics_printed (check_escapes lines cols rows source translation ws wt)
   = (if count_list source 37 \<noteq> count_list translation 37 \<and> translation \<noteq> []
      then [Placeholder_count_error] else [])"
  by (simp add: check_escapes_def red_def diagnostics_pst)

lemma diagnostics_short:
  "diagnostics_printed (check_short no_warning lines cols rows source translation ws wt)
   = (if \<not> no_warning \<and> source \<noteq> [] \<and> translation \<noteq> []
         \<and> 2 * length (strip translation) < length (strip source)
      then [Short_translation_warning] else [])"
  by (simp add: check_short_def yellow_def diagnostics_pst)

lemma punctuation_raises_iff:
  "snd (check_punctuation rt no_warning lines cols rows source translation ws wt)
   = (if \<not> no_warning \<and> source \<noteq> [] \<and> translation \<noteq> []
         \<and> (strip source = [] \<or> strip translation = [])
      then Inl IndexError else Inr ())"
  by (auto simp: check_punctuation_def snd_seq quiet_def last_char_def Let_def)

lemma diagnostics_punctuation:
  "diagnostics_printed (fst (check_punctuation rt no_warning lines cols rows source translation ws wt))
   = (if \<not> no_warning \<and> source \<noteq> [] \<and> translation \<noteq> []
         \<and> strip source \<noteq> [] \<and> strip translation \<noteq> []
      then (if \<not> (ign_char_first rt (hd source) \<and> ign_char_first rt (hd translation))
               \<and> hd source \<noteq> hd translation
            then [First_punctuation_warning] else [])
         @ (if \<not> (ign_char_last rt (last (strip source)) \<and> ign_char_last rt (last (strip translation)))
               \<and> last (strip source) \<noteq> last (strip translation)
            then [Last_punctuation_warning] else [])
      else [])"
  by (auto simp: check_punctuation_def fst_seq quiet_def last_char_def Let_def yellow_def
        diagnostics_printed_append diagnostics_pst)




subsection \<open>The punctuation check on a string of white space\<close>

lemma strip_all_space:
  assumes "list_all isspace text"
  shows "strip text = []"
proof -
  have "\<forall>c\<in>set text. isspace c"
    using assms by (simp add: list_all_iff)
  then have "dropWhile isspace text = []"
    by (rule iffD2 [OF dropWhile_eq_Nil_conv])
  then show ?thesis
    unfolding strip_def by (simp only: rev.simps dropWhile.simps)
qed

text \<open>
  C10. With warnings enabled, when the decoded source and the decoded translation are
  both not empty and one of them has only white space, the punctuation check raises
  \<^verbatim>\<open>IndexError\<close> (the last character of an empty stripped string): the checks of the
  record end there, with no message of the punctuation check nor of the short
  translation check, and the exception leaves \<^verbatim>\<open>parse_txt\<close>.
\<close>

theorem punctuation_check_index_error:
  assumes "\<not> no_warning" and "source \<noteq> []" and "translation \<noteq> []"
    and "list_all isspace source \<or> list_all isspace translation"
  shows "snd (check_record rt no_warning lines cols rows source translation
                wrapped_source wrapped_translation) = Inl IndexError
         \<and> Punctuation_drift \<notin> set (checks_printed (fst (check_record rt no_warning lines cols rows
                source translation wrapped_source wrapped_translation)))
         \<and> Short_translation_check \<notin> set (checks_printed (fst (check_record rt no_warning lines cols rows
                source translation wrapped_source wrapped_translation)))"
proof -
  have "strip source = [] \<or> strip translation = []"
    using assms(4) strip_all_space by blast
  then have p: "check_punctuation rt no_warning lines cols rows source translation
                wrapped_source wrapped_translation = ([], Inl IndexError)"
    using assms(1,2,3)
    by (auto simp: check_punctuation_def seq_def quiet_def last_char_def)
  then show ?thesis
    using checks_printed_source[of no_warning lines cols rows source wrapped_source]
      checks_printed_length[of lines cols rows source translation wrapped_source wrapped_translation]
      checks_printed_escapes[of lines cols rows source translation wrapped_source wrapped_translation]
    by (auto simp: check_record_def fst_seq snd_seq checks_printed_append)
qed

text \<open>
  A source of one space: the check raises, and the run of the script on such a file is
  aborted with the trace of the \<^verbatim>\<open>IndexError\<close>.
\<close>

theorem punctuation_check_index_error_witness:
  "snd (check_record ascii_runtime False 1 20 1 (ustr '' '') (ustr ''Ano'') [] [ustr ''Ano''])
     = Inl IndexError
   \<and> snd (main ascii_runtime
        [ustr ''lang_en.txt'' \<mapsto>
           lang_line (ustr ''MSG c=20 r=1'') @ lang_line (quoted (ustr '' ''))
           @ lang_line (quoted (ustr ''Ano''))]
        (ustr ''en'') False) = ([Traceback IndexError, Usage, Error_message IndexError], System_exit 2)"
proof -
  have "list_all isspace (ustr '' '') \<or> list_all isspace (ustr ''Ano'')"
    by (simp add: isspace_def)
  then have "snd (check_record ascii_runtime False 1 20 1 (ustr '' '') (ustr ''Ano'') [] [ustr ''Ano''])
     = Inl IndexError"
    using punctuation_check_index_error [where no_warning = False and source = "ustr '' ''"
        and translation = "ustr ''Ano''"]
    by simp
  moreover have "snd (main ascii_runtime
        [ustr ''lang_en.txt'' \<mapsto>
           lang_line (ustr ''MSG c=20 r=1'') @ lang_line (quoted (ustr '' ''))
           @ lang_line (quoted (ustr ''Ano''))]
        (ustr ''en'') False) = ([Traceback IndexError, Usage, Error_message IndexError], System_exit 2)"
    by (simp add: run_simps)
  ultimately show ?thesis by simp
qed

subsection \<open>Runs of the script that end in an exception\<close>

text \<open>
  Whatever exception leaves \<^verbatim>\<open>parse_txt\<close>, \<^verbatim>\<open>main\<close> prints the trace, the usage and the
  message, and \<^verbatim>\<open>parser.error\<close> ends the process with status 2: the \<^verbatim>\<open>return 1\<close> after
  it is never reached.
\<close>

lemma main_on_exception:
  assumes "snd (parse_txt rt files lang no_warning) = Inl exc"
  shows "snd (main rt files lang no_warning)
         = ([Traceback exc, Usage, Error_message exc], System_exit 2)"
  using assms by (cases "parse_txt rt files lang no_warning") (simp add: main_def parser_error_def)

lemma main_on_return:
  assumes "snd (parse_txt rt files lang no_warning) = Inr u"
  shows "snd (main rt files lang no_warning) = ([], Return 0)"
  using assms by (cases "parse_txt rt files lang no_warning") (simp add: main_def)

text \<open>An exception raised in a frame leaves the loop.\<close>

lemma parse_loop_raises:
  assumes "snd (frame rt no_warning lines translation (readline src)
                  (readline (after_readline src))
                  (readline (after_readline (after_readline src)))) = Inl e"
  shows "snd (parse_loop rt no_warning src lines translation) = Inl e"
proof -
  obtain out where "frame rt no_warning lines translation (readline src)
                  (readline (after_readline src))
                  (readline (after_readline (after_readline src))) = (out, Inl e)"
    using assms by (metis prod.collapse)
  then show ?thesis
    by (subst parse_loop.simps) (simp add: Let_def)
qed

text \<open>
  In the first turn of the loop, every comment line with neither \<^verbatim>\<open>c\<close> nor \<^verbatim>\<open>r\<close> ends in
  the \<^verbatim>\<open>UnboundLocalError\<close>.
\<close>

lemma frame_unbound_translation:
  assumes "display_items rt (split_on 32 comment_line) lines (tl (split_on 32 comment_line))
             None None = Inr (None, None)"
  shows "snd (frame rt no_warning lines None comment_line source_line translation_line)
         = Inl UnboundLocalError"
  using assms by (simp add: frame_def snd_seq display_defaults_def Let_def quiet_def)

text \<open>Every frame whose comment line gives \<^verbatim>\<open>r\<close> and no \<^verbatim>\<open>c\<close> raises.\<close>

lemma frame_rows_without_columns:
  assumes "display_items rt (split_on 32 comment_line) lines (tl (split_on 32 comment_line))
             None None = Inr (None, Some r)"
  shows "\<exists>e. snd (frame rt no_warning lines translation comment_line source_line translation_line)
             = Inl e"
proof -
  define source where "source = strip_chars [34] (butlast source_line)"
  define raw where "raw = (if strip_chars [34] (butlast translation_line) = [92, 120, 48, 48]
      then [] else strip_chars [34] (butlast translation_line))"
  have d: "snd (display_defaults no_warning lines translation None (Some r)) = Inr (None, r)"
    by (simp add: display_defaults_def snd_seq quiet_def)
  have f: "snd (frame rt no_warning lines translation comment_line source_line translation_line)
    = (case unescape rt source of
         Inl e \<Rightarrow> Inl e
       | Inr s \<Rightarrow> (case unescape rt raw of Inl e \<Rightarrow> Inl e | Inr t \<Rightarrow> Inl TypeError))"
    using assms d
    by (simp add: frame_def snd_seq Let_def quiet_def wrap_def source_def raw_def
          split: sum.splits)
  show ?thesis
    unfolding f by (simp split: sum.splits)
qed

text \<open>
  C1. The claim fails on the code. In the first frame of a file, a comment line with
  neither \<^verbatim>\<open>c\<close> nor \<^verbatim>\<open>r\<close> prints the warning and then reads the variable
  \<^verbatim>\<open>translation\<close> before it is bound: the run is aborted with an \<^verbatim>\<open>UnboundLocalError\<close>.
  In a later frame the columns are the length of the decoded translation of the frame
  before: after a translation of six characters, a translation of eight characters is
  reported as longer than six columns.
\<close>

theorem no_display_definition_runs:
  "main ascii_runtime
     [ustr ''lang_en.txt'' \<mapsto>
        lang_line (ustr ''MSG_OK'') @ lang_line (quoted (ustr ''OK''))
        @ lang_line (quoted (ustr ''OK''))]
     (ustr ''en'') False
   = ([green (Start_lang_check (ustr ''en'')), yellow (No_display_definition 1)],
      [Traceback UnboundLocalError, Usage, Error_message UnboundLocalError],
      System_exit 2)
   \<and> messages (fst (main ascii_runtime
     [ustr ''lang_en.txt'' \<mapsto>
        lang_line (ustr ''MSG_A c=20'') @ lang_line (quoted (ustr ''abcdef''))
        @ lang_line (quoted (ustr ''abcdef'')) @ lang_line []
        @ lang_line (ustr ''MSG_B'') @ lang_line (quoted (ustr ''abcdefgh''))
        @ lang_line (quoted (ustr ''abcdefgh''))]
     (ustr ''en'') True))
   = [Start_lang_check (ustr ''en''), Text_longer_than_definition 5 6 1 1,
      End_lang_check (ustr ''en'')]"
  by (simp add: run_simps)

text \<open>
  C2. The claim fails on the code. The warning of several rows with columns other than 20
  is printed whether warnings are disabled or not: with \<^verbatim>\<open>--no-warning\<close>, a file whose
  only record has \<^verbatim>\<open>c=10 r=2\<close> and raises no error prints that warning. The run ends with
  status 0.
\<close>

theorem no_warning_run_prints_warning:
  "main ascii_runtime
     [ustr ''lang_en.txt'' \<mapsto>
        lang_line (ustr ''MSG c=10 r=2'') @ lang_line (quoted (ustr ''ab''))
        @ lang_line (quoted (ustr ''ab''))]
     (ustr ''en'') True
   = ([green (Start_lang_check (ustr ''en'')), yellow (Multiple_rows_odd_columns 1),
       green (End_lang_check (ustr ''en''))],
      [], Return 0)"
  by (simp add: run_simps)

text \<open>
  C3. The claim fails on the code in the exit status. An unknown key \<^verbatim>\<open>x=1\<close> in the
  second frame, a truncated escape \<^verbatim>\<open>\x4\<close>, and a file that is not there each abort the
  run after the trace, the usage and the message are printed; the exit status is 2, not
  1.
\<close>

theorem fatal_failure_runs:
  "snd (main ascii_runtime
     [ustr ''lang_en.txt'' \<mapsto>
        lang_line (ustr ''MSG_A c=20 r=1'') @ lang_line (quoted (ustr ''OK''))
        @ lang_line (quoted (ustr ''OK'')) @ lang_line []
        @ lang_line (ustr ''MSG_B x=1'') @ lang_line (quoted (ustr ''OK''))
        @ lang_line (quoted (ustr ''OK''))]
     (ustr ''en'') False)
   = ([Traceback (RuntimeError (ustr ''MSG_B x=1'' @ [10]) 5), Usage,
       Error_message (RuntimeError (ustr ''MSG_B x=1'' @ [10]) 5)],
      System_exit 2)
   \<and> snd (main ascii_runtime
     [ustr ''lang_en.txt'' \<mapsto>
        lang_line (ustr ''MSG_A c=20 r=1'') @ lang_line (quoted (ustr ''OK''))
        @ lang_line (quoted ([92] @ ustr ''x4''))]
     (ustr ''en'') False)
   = ([Traceback UnicodeDecodeError, Usage, Error_message UnicodeDecodeError], System_exit 2)
   \<and> snd (main ascii_runtime Map.empty (ustr ''en'') False)
   = ([Traceback FileNotFoundError, Usage, Error_message FileNotFoundError], System_exit 2)
   \<and> exit_status (System_exit 2) = 2"
  by (simp add: run_simps)

text \<open>
  C8. The claim fails on the code. A comment line with \<^verbatim>\<open>r=2\<close> and no \<^verbatim>\<open>c\<close> leaves the
  columns \<^verbatim>\<open>None\<close>; the warning of the odd columns is printed, and wrapping the source
  to a width of \<^verbatim>\<open>None\<close> raises \<^verbatim>\<open>TypeError\<close>: no check of the record is run.
\<close>

theorem rows_without_columns_run:
  "main ascii_runtime
     [ustr ''lang_en.txt'' \<mapsto>
        lang_line (ustr ''MSG r=2'') @ lang_line (quoted (ustr ''ab''))
        @ lang_line (quoted (ustr ''ab''))]
     (ustr ''en'') False
   = ([green (Start_lang_check (ustr ''en'')), yellow (Multiple_rows_odd_columns 1)],
      [Traceback TypeError, Usage, Error_message TypeError],
      System_exit 2)"
  by (simp add: run_simps)

subsection \<open>The error of the translation overflow\<close>

text \<open>
  A text without a tab keeps its length when the wrapper prepares it, the chunks are the
  text cut in pieces, and chunks that fit the width together make one line at most.
\<close>

lemma expandtabs_no_tab: "9 \<notin> set text \<Longrightarrow> expandtabs tabsize line_pos text = text"
  by (induction "text" arbitrary: line_pos) simp_all

lemma length_munge_no_tab: "9 \<notin> set text \<Longrightarrow> length (munge_whitespace text) = length text"
  by (simp add: munge_whitespace_def expandtabs_no_tab)

lemma concat_wordsep_split: "concat (wordsep_split rt behind text) = text"
  by (induction rt behind "text" rule: wordsep_split.induct) (simp_all add: Let_def)

lemma concat_filter_nonempty: "concat (filter (\<lambda>c. c \<noteq> []) chunks) = concat chunks"
  by (induction chunks) simp_all

lemma concat_tw_split: "concat (tw_split rt text) = text"
  by (simp add: tw_split_def concat_filter_nonempty concat_wordsep_split)

lemma fill_line_all:
  "cur_len + length (concat chunks) \<le> width \<Longrightarrow>
   fill_line width chunks cur_line cur_len = ([], cur_line @ chunks, cur_len + length (concat chunks))"
  by (induction chunks arbitrary: cur_line cur_len) simp_all

lemma wrap_chunks_fits:
  assumes "length (concat chunks) \<le> width"
  shows "length (wrap_chunks width chunks []) \<le> 1"
proof (cases "chunks = []")
  case True
  then show ?thesis by simp
next
  case False
  have f: "fill_line width chunks [] 0 = ([], chunks, length (concat chunks))"
    using fill_line_all[of 0 chunks width "[]"] assms by simp
  obtain lines' where w: "wrap_line width chunks [] = ([], lines')" and l: "length lines' \<le> 1"
    by (simp add: wrap_line_def f Let_def)
  have "wrap_chunks width chunks [] = wrap_chunks width [] lines'"
    using False w by (simp add: wrap_chunks_step)
  with l show ?thesis by simp
qed

lemma wrap_fits:
  assumes "9 \<notin> set text" and "int (length text) \<le> cols"
    and "wrap rt (Some cols) text = Inr wrapped"
  shows "length wrapped \<le> 1"
proof -
  have pos: "\<not> cols \<le> 0 \<Longrightarrow> length (concat (tw_split rt (munge_whitespace text))) \<le> nat cols"
    using assms(1,2) by (simp add: concat_tw_split length_munge_no_tab)
  show ?thesis
    using assms(3) wrap_chunks_fits[OF pos]
    by (auto simp: wrap_def Let_def split: if_splits)
qed

lemma overflow_printed_iff:
  "Overflow \<in> set (checks_printed (fst (check_record rt no_warning lines cols rows source translation
                wrapped_source wrapped_translation)))
   \<longleftrightarrow> int (length wrapped_translation) > rows \<or> (rows = 1 \<and> int (length translation) > cols)"
proof -
  have l: "checks_printed (check_length lines cols rows source translation wrapped_source wrapped_translation)
    = (if int (length wrapped_translation) > rows \<or> (rows = 1 \<and> int (length translation) > cols)
       then [Overflow] else [])"
    by (simp add: check_length_def red_def Let_def checks_printed_pst)
  have p: "Overflow \<notin> set (checks_printed (fst (check_punctuation rt no_warning lines cols rows source
      translation wrapped_source wrapped_translation)))"
    using checks_printed_punctuation[of rt no_warning lines cols rows source translation
        wrapped_source wrapped_translation] by auto
  show ?thesis
    using checks_printed_source[of no_warning lines cols rows source wrapped_source]
      checks_printed_escapes[of lines cols rows source translation wrapped_source wrapped_translation]
      checks_printed_short[of no_warning lines cols rows source translation wrapped_source wrapped_translation]
      p
    by (auto simp: check_record_def fst_seq snd_seq checks_printed_append l split: sum.splits)
qed




subsection \<open>What wrapping keeps of the text\<close>

text \<open>
  Every turn of the wrapper's loop moves chunks, or a part of the first chunk, to a line
  that fits the width, and drops only chunks of white space.
\<close>

lemma non_space_append [simp]: "non_space (xs @ ys) = non_space xs @ non_space ys"
  by (simp add: non_space_def)

lemma non_space_Nil [simp]: "non_space [] = []"
  by (simp add: non_space_def)

lemma non_space_concat_append [simp]:
  "non_space (concat (xs @ ys)) = non_space (concat xs) @ non_space (concat ys)"
  by simp

lemma strip_empty_non_space:
  assumes "strip chunk = []"
  shows "non_space chunk = []"
proof -
  have "dropWhile isspace (rev (dropWhile isspace chunk)) = []"
    using assms by (simp only: strip_def rev_is_Nil_conv)
  then have all: "\<forall>c\<in>set (dropWhile isspace chunk). isspace c"
    by (simp only: dropWhile_eq_Nil_conv set_rev)
  have "dropWhile isspace chunk = []"
  proof (rule ccontr)
    assume ne: "dropWhile isspace chunk \<noteq> []"
    then have "\<not> isspace (hd (dropWhile isspace chunk))" by (rule hd_dropWhile)
    moreover have "hd (dropWhile isspace chunk) \<in> set (dropWhile isspace chunk)"
      using ne by (rule hd_in_set)
    ultimately show False using all by blast
  qed
  then have "\<forall>c\<in>set chunk. isspace c"
    by (simp only: dropWhile_eq_Nil_conv)
  then show ?thesis by (simp add: non_space_def)
qed

lemma tw_whitespace_isspace: "tw_whitespace c \<Longrightarrow> isspace c"
  by (auto simp: tw_whitespace_def isspace_def)

lemma non_space_replicate_space [simp]: "non_space (replicate n 32) = []"
  by (simp add: non_space_def isspace_def)

lemma non_space_expandtabs: "non_space (expandtabs tabsize line_pos s) = non_space s"
proof (induction s arbitrary: line_pos)
  case Nil
  then show ?case by simp
next
  case (Cons c s)
  have tab: "isspace 9" by (simp add: isspace_def)
  show ?case
  proof (cases "c = 9")
    case True
    then have "non_space (c # s) = non_space s" using tab by (simp add: non_space_def)
    with True Cons[of "line_pos + (tabsize - line_pos mod tabsize)"] Cons[of line_pos]
    show ?thesis by (cases "tabsize = 0") (simp_all add: Let_def)
  next
    case False
    have "non_space (c # x) = (if isspace c then [] else [c]) @ non_space x" for x
      by (simp add: non_space_def)
    with False Cons show ?thesis by simp
  qed
qed

lemma non_space_map_space:
  "non_space (map (\<lambda>c. if tw_whitespace c then 32 else c) s) = non_space s"
proof (induction s)
  case Nil
  then show ?case by simp
next
  case (Cons c s)
  have sp: "isspace 32" by (simp add: isspace_def)
  show ?case using Cons sp tw_whitespace_isspace[of c]
    by (auto simp: non_space_def)
qed

lemma non_space_munge: "non_space (munge_whitespace s) = non_space s"
  by (simp add: munge_whitespace_def non_space_map_space non_space_expandtabs)

lemma fill_line_concat:
  "fill_line width chunks cur_line cur_len = (chunks', cur_line', cur_len') \<Longrightarrow>
   cur_line' @ chunks' = cur_line @ chunks"
  by (induction width chunks cur_line cur_len rule: fill_line.induct) (auto split: if_splits)

lemma fill_line_len:
  "fill_line width chunks cur_line cur_len = (chunks', cur_line', cur_len') \<Longrightarrow>
   cur_len = length (concat cur_line) \<Longrightarrow> cur_len \<le> width \<Longrightarrow>
   cur_len' = length (concat cur_line') \<and> cur_len' \<le> width"
  by (induction width chunks cur_line cur_len rule: fill_line.induct) (auto split: if_splits)

lemma handle_long_word_concat:
  "handle_long_word chunks cur_line cur_len width = (chunks', cur_line') \<Longrightarrow>
   concat cur_line' @ concat chunks' = concat cur_line @ concat chunks"
  by (cases chunks) (auto simp: Let_def)

lemma rfind_hyphen_less: "rfind_hyphen chunk space_left = Some h \<Longrightarrow> h < space_left"
proof -
  assume a: "rfind_hyphen chunk space_left = Some h"
  then obtain x front where d: "dropWhile (\<lambda>c. c \<noteq> 45) (rev (take space_left chunk)) = x # front"
    and h: "h = length front"
    by (auto simp: rfind_hyphen_def split: list.splits)
  have "length (dropWhile (\<lambda>c. c \<noteq> 45) (rev (take space_left chunk)))
        \<le> length (rev (take space_left chunk))"
    by (rule length_dropWhile_le)
  with d h show ?thesis by simp
qed

lemma handle_long_word_len:
  assumes "handle_long_word chunks cur_line cur_len width = (chunks', cur_line')"
    and "cur_len = length (concat cur_line)" and "cur_len \<le> width" and "1 \<le> width"
  shows "length (concat cur_line') \<le> width"
proof (cases chunks)
  case Nil
  with assms show ?thesis by simp
next
  case (Cons chunk rest)
  show ?thesis
    using assms Cons rfind_hyphen_less[of chunk "width - cur_len"]
    by (auto simp: Let_def split: option.splits if_splits)
qed

lemma butlast_space:
  assumes "cur_line \<noteq> []" and "strip (last cur_line) = []"
  shows "non_space (concat (butlast cur_line)) = non_space (concat cur_line)"
    and "length (concat (butlast cur_line)) \<le> length (concat cur_line)"
proof -
  have c: "cur_line = butlast cur_line @ [last cur_line]"
    using assms(1) by simp
  have "non_space (concat cur_line) = non_space (concat (butlast cur_line)) @ non_space (last cur_line)"
    by (subst c) simp
  then show "non_space (concat (butlast cur_line)) = non_space (concat cur_line)"
    using strip_empty_non_space[OF assms(2)] by simp
  have "length (concat cur_line) = length (concat (butlast cur_line)) + length (last cur_line)"
    by (subst c) simp
  then show "length (concat (butlast cur_line)) \<le> length (concat cur_line)"
    by simp
qed

lemma wrap_line_keeps:
  assumes "chunks \<noteq> []" and "1 \<le> width"
  shows "\<exists>line. snd (wrap_line width chunks lines) = lines @ line
           \<and> list_all (\<lambda>l. length l \<le> width) line
           \<and> non_space (concat line) @ non_space (concat (fst (wrap_line width chunks lines)))
               = non_space (concat chunks)"
proof -
  define chunks1 where
    "chunks1 = (if strip (hd chunks) = [] \<and> lines \<noteq> [] then tl chunks else chunks)"
  obtain chunks2 cur_line cur_len
    where f: "fill_line width chunks1 [] 0 = (chunks2, cur_line, cur_len)"
    by (metis prod_cases3)
  define r where "r = (if chunks2 \<noteq> [] \<and> length (hd chunks2) > width
             then handle_long_word chunks2 cur_line cur_len width
             else (chunks2, cur_line))"
  define cur_line2 where "cur_line2 = (if snd r \<noteq> [] \<and> strip (last (snd r)) = []
                       then butlast (snd r) else snd r)"
  have w: "wrap_line width chunks lines
           = (fst r, if cur_line2 \<noteq> [] then lines @ [concat cur_line2] else lines)"
    using f unfolding wrap_line_def chunks1_def[symmetric]
    by (simp add: Let_def r_def cur_line2_def split_beta)
  have p1: "non_space (concat chunks1) = non_space (concat chunks)"
  proof (cases "strip (hd chunks) = [] \<and> lines \<noteq> []")
    case True
    then have "non_space (hd chunks) = []" by (simp add: strip_empty_non_space)
    moreover have "chunks = hd chunks # tl chunks" using assms(1) by simp
    ultimately have "non_space (concat chunks) = non_space (concat (tl chunks))"
      by (metis append_Nil concat.simps(2) non_space_append)
    with True show ?thesis by (simp add: chunks1_def)
  next
    case False
    then show ?thesis by (auto simp: chunks1_def)
  qed
  have p2: "cur_line @ chunks2 = chunks1"
    using fill_line_concat[OF f] by simp
  have l2: "cur_len = length (concat cur_line) \<and> cur_len \<le> width"
    using fill_line_len[OF f] by simp
  have p3: "concat (snd r) @ concat (fst r) = concat cur_line @ concat chunks2"
    and l3: "length (concat (snd r)) \<le> width"
  proof -
    show "concat (snd r) @ concat (fst r) = concat cur_line @ concat chunks2"
      using handle_long_word_concat[of chunks2 cur_line cur_len width "fst r" "snd r"]
      by (auto simp: r_def)
    show "length (concat (snd r)) \<le> width"
      using handle_long_word_len[of chunks2 cur_line cur_len width "fst r" "snd r"] l2 assms(2)
      by (auto simp: r_def)
  qed
  have p4: "non_space (concat cur_line2) = non_space (concat (snd r))"
    and l4: "length (concat cur_line2) \<le> length (concat (snd r))"
    using butlast_space[of "snd r"] by (auto simp: cur_line2_def)
  have "non_space (concat cur_line2) @ non_space (concat (fst r)) = non_space (concat chunks)"
  proof -
    have "non_space (concat cur_line2) @ non_space (concat (fst r))
          = non_space (concat (snd r) @ concat (fst r))"
      using p4 by simp
    also have "\<dots> = non_space (concat (cur_line @ chunks2))"
      using p3 by simp
    finally show ?thesis using p2 p1 by simp
  qed
  then show ?thesis
    using w l3 l4 by (cases "cur_line2 = []") auto
qed

lemma wrap_chunks_keeps:
  assumes "1 \<le> width"
  shows "non_space (concat (wrap_chunks width chunks lines))
           = non_space (concat lines) @ non_space (concat chunks)
         \<and> (list_all (\<lambda>l. length l \<le> width) lines
              \<longrightarrow> list_all (\<lambda>l. length l \<le> width) (wrap_chunks width chunks lines))"
  using assms
proof (induction width chunks lines rule: wrap_chunks.induct)
  case (1 width chunks lines)
  note pos = \<open>1 \<le> width\<close>
  show ?case
  proof (cases "chunks = []")
    case True
    then show ?thesis by simp
  next
    case False
    obtain line where s: "snd (wrap_line width chunks lines) = lines @ line"
      and b: "list_all (\<lambda>l. length l \<le> width) line"
      and k: "non_space (concat line) @ non_space (concat (fst (wrap_line width chunks lines)))
               = non_space (concat chunks)"
      using wrap_line_keeps[OF False pos, of lines] by blast
    have ih: "non_space (concat (wrap_chunks width (fst (wrap_line width chunks lines))
                 (snd (wrap_line width chunks lines))))
           = non_space (concat (snd (wrap_line width chunks lines)))
             @ non_space (concat (fst (wrap_line width chunks lines)))
         \<and> (list_all (\<lambda>l. length l \<le> width) (snd (wrap_line width chunks lines))
              \<longrightarrow> list_all (\<lambda>l. length l \<le> width)
                    (wrap_chunks width (fst (wrap_line width chunks lines))
                       (snd (wrap_line width chunks lines))))"
      using "1.IH"[OF False, of "fst (wrap_line width chunks lines)" "snd (wrap_line width chunks lines)"] pos
      by simp
    show ?thesis
      using ih s b k by (simp add: wrap_chunks_step[OF False])
  qed
qed

text \<open>
  The words of a text: a line keeps the words of its chunks, and the wrapper's loop keeps
  the words of a text without hyphen whose words fit the width.
\<close>

lemma strip_empty_all_space:
  assumes "strip chunk = []"
  shows "list_all isspace chunk"
proof -
  have "dropWhile isspace (rev (dropWhile isspace chunk)) = []"
    using assms by (simp only: strip_def rev_is_Nil_conv)
  then have all: "\<forall>c\<in>set (dropWhile isspace chunk). isspace c"
    by (simp only: dropWhile_eq_Nil_conv set_rev)
  have "dropWhile isspace chunk = []"
  proof (rule ccontr)
    assume ne: "dropWhile isspace chunk \<noteq> []"
    then have "\<not> isspace (hd (dropWhile isspace chunk))" by (rule hd_dropWhile)
    moreover have "hd (dropWhile isspace chunk) \<in> set (dropWhile isspace chunk)"
      using ne by (rule hd_in_set)
    ultimately show False using all by blast
  qed
  then have "\<forall>c\<in>set chunk. isspace c"
    by (simp only: dropWhile_eq_Nil_conv)
  then show ?thesis by (simp add: list_all_iff)
qed

text \<open>Words of a text read piece by piece.\<close>

lemma split_words_space:
  "isspace c \<Longrightarrow> split_words word (c # xs) = (if word = [] then [] else [word]) @ split_words [] xs"
  by simp

lemma split_words_spaces:
  "list_all isspace d \<Longrightarrow> split_words [] (d @ xs) = split_words [] xs"
  by (induction d) simp_all

lemma split_words_word:
  "list_all (\<lambda>x. \<not> isspace x) c \<Longrightarrow> split_words word (c @ xs) = split_words (word @ c) xs"
  by (induction c arbitrary: word) simp_all

lemma split_words_at_space:
  "isspace c \<Longrightarrow> split_words word (p @ c # ys) = split_words word p @ split_words [] ys"
  by (induction p arbitrary: word) simp_all

lemma split_words_all_space: "list_all isspace d \<Longrightarrow> split_words [] d = []"
  using split_words_spaces[of d "[]"] by simp

lemma split_words_one_word:
  "c \<noteq> [] \<Longrightarrow> list_all (\<lambda>x. \<not> isspace x) c \<Longrightarrow> split_words [] c = [c]"
  using split_words_word[of c "[]" "[]"] by simp

lemma split_words_join:
  "split_words [] (join [32] fragments) = concat (map (split_words []) fragments)"
proof (induction "[32::nat]" fragments rule: join.induct)
  case 1
  then show ?case by simp
next
  case (2 p)
  then show ?case by simp
next
  case (3 p q ps)
  have sp: "isspace 32" by (simp add: isspace_def)
  have "split_words [] (p @ 32 # join [32] (q # ps))
        = split_words [] p @ split_words [] (join [32] (q # ps))"
    using sp by (rule split_words_at_space)
  with 3 show ?case by simp
qed

text \<open>Munging keeps the words.\<close>

lemma split_words_replicate:
  "0 < n \<Longrightarrow> split_words word (replicate n 32 @ xs) = split_words word (32 # xs)"
proof -
  assume "0 < n"
  then obtain k where n: "n = Suc k" by (cases n) auto
  have sp: "isspace 32" by (simp add: isspace_def)
  have "list_all isspace (replicate k 32)" using sp by (simp add: list_all_iff)
  then have "split_words [] (replicate k 32 @ xs) = split_words [] xs"
    by (rule split_words_spaces)
  then show ?thesis using sp by (simp add: n)
qed

lemma split_words_expandtabs:
  "0 < tabsize \<Longrightarrow> split_words word (expandtabs tabsize line_pos s) = split_words word s"
proof (induction s arbitrary: word line_pos)
  case Nil
  then show ?case by simp
next
  case (Cons c s)
  have tab: "isspace 9" and sp: "isspace 32" by (simp_all add: isspace_def)
  show ?case
  proof (cases "c = 9")
    case True
    have pos: "0 < tabsize - line_pos mod tabsize" using Cons.prems by simp
    have "split_words word (expandtabs tabsize line_pos (c # s))
          = split_words word (32 # expandtabs tabsize (line_pos + (tabsize - line_pos mod tabsize)) s)"
      using True Cons.prems split_words_replicate[OF pos] by (simp add: Let_def)
    also have "\<dots> = split_words word (9 # s)"
      using Cons.IH[OF Cons.prems] tab sp by simp
    finally show ?thesis using True by simp
  next
    case False
    then show ?thesis using Cons.IH[OF Cons.prems] by simp
  qed
qed

lemma split_words_map_space:
  "split_words word (map (\<lambda>c. if tw_whitespace c then 32 else c) s) = split_words word s"
proof (induction s arbitrary: word)
  case Nil
  then show ?case by simp
next
  case (Cons c s)
  have sp: "isspace 32" by (simp add: isspace_def)
  show ?case using Cons sp tw_whitespace_isspace[of c] by auto
qed

lemma split_words_munge: "split_words word (munge_whitespace s) = split_words word s"
  by (simp add: munge_whitespace_def split_words_map_space split_words_expandtabs)

lemma set_expandtabs: "set (expandtabs tabsize line_pos s) \<subseteq> insert 32 (set s)"
  by (induction s arbitrary: line_pos) (auto simp: Let_def)

lemma set_munge:
  assumes "x \<in> set (munge_whitespace s)"
  shows "x = 32 \<or> (x \<in> set s \<and> \<not> tw_whitespace x)"
proof -
  obtain y where y: "y \<in> set (expandtabs 8 0 s)" and x: "x = (if tw_whitespace y then 32 else y)"
    using assms by (auto simp: munge_whitespace_def)
  have "y = 32 \<or> y \<in> set s" using y set_expandtabs[of 8 0 s] by auto
  then show ?thesis using x by (auto simp: tw_whitespace_def)
qed

lemma ws_chunk_words: "ws_chunk c \<Longrightarrow> split_words [] c = []"
  by (simp add: ws_chunk_def split_words_all_space)

lemma ws_chunk_take_drop: "ws_chunk c \<Longrightarrow> ws_chunk (take e c) \<and> ws_chunk (drop e c)"
  by (auto simp: ws_chunk_def list_all_iff dest: in_set_takeD in_set_dropD)

lemma ws_chunk_strip: "ws_chunk c \<Longrightarrow> strip c = []"
  by (simp add: ws_chunk_def strip_all_space)

lemma strip_ws_chunk: "strip c = [] \<Longrightarrow> ws_chunk c"
  by (simp add: ws_chunk_def strip_empty_all_space)

lemma alternate_tl: "alternate (c # rest) \<Longrightarrow> alternate rest"
  by (cases rest) simp_all

lemma alternate_ws_cons: "ws_chunk c \<Longrightarrow> alternate rest \<Longrightarrow> alternate (c # rest)"
  by (cases rest) simp_all

lemma alternate_append: "alternate (a @ b) \<Longrightarrow> alternate a \<and> alternate b"
proof (induction a rule: alternate.induct)
  case 1
  then show ?case by simp
next
  case (2 c)
  then show ?case by (cases b) auto
next
  case (3 c d cs)
  then show ?case by simp
qed

lemma alternate_butlast: "alternate a \<Longrightarrow> alternate (butlast a)"
proof (cases "a = []")
  case True
  then show ?thesis by simp
next
  case False
  assume "alternate a"
  then have "alternate (butlast a @ [last a])" using False by simp
  then show ?thesis using alternate_append by blast
qed

lemma alternate_chunk: "alternate chunks \<Longrightarrow> c \<in> set chunks \<Longrightarrow> ws_chunk c \<or> word_chunk c"
  by (induction chunks rule: alternate.induct) auto

lemma words_concat_alternate:
  "alternate chunks \<Longrightarrow>
   split_words [] (concat chunks) = concat (map (split_words []) chunks)"
proof (induction chunks rule: alternate.induct)
  case 1
  then show ?case by simp
next
  case (2 c)
  then show ?case by simp
next
  case (3 c d cs)
  then have ih: "split_words [] (d @ concat cs)
                 = split_words [] d @ concat (map (split_words []) cs)"
    by simp
  show ?case
  proof (cases "ws_chunk c")
    case True
    then have "split_words [] (c @ d @ concat cs) = split_words [] (d @ concat cs)"
      by (simp add: ws_chunk_def split_words_spaces)
    with True ih show ?thesis by (simp add: ws_chunk_words)
  next
    case False
    with 3 have c: "word_chunk c" and d: "ws_chunk d" and ne: "d \<noteq> []" by simp_all
    obtain x d' where dx: "d = x # d'" using ne by (cases d) auto
    have x: "isspace x" and d': "list_all isspace d'" using d dx by (simp_all add: ws_chunk_def)
    have rest: "split_words [] (d @ concat cs) = split_words [] (concat cs)"
      using d by (simp add: ws_chunk_def split_words_spaces)
    have "split_words [] (c @ d @ concat cs) = split_words c (d @ concat cs)"
      using c split_words_word[of c "[]"] by (simp add: word_chunk_def)
    also have "\<dots> = [c] @ split_words [] (d' @ concat cs)"
      using x c by (simp add: dx word_chunk_def)
    also have "\<dots> = [c] @ split_words [] (concat cs)"
      using d' by (simp add: split_words_spaces)
    finally have "split_words [] (c @ d @ concat cs) = [c] @ split_words [] (d @ concat cs)"
      using rest by simp
    moreover have "split_words [] c = [c]"
      using c by (simp add: word_chunk_def split_words_one_word)
    ultimately show ?thesis using ih by simp
  qed
qed

lemma handle_long_word_form:
  "\<exists>e. handle_long_word (chunk # chunks) cur_line cur_len width
       = (drop e chunk # chunks, cur_line @ [take e chunk])"
  unfolding handle_long_word.simps Let_def by blast

lemma wrap_line_words:
  assumes "chunks \<noteq> []" and "alternate chunks" and "fits width chunks"
  shows "alternate (fst (wrap_line width chunks lines))
         \<and> fits width (fst (wrap_line width chunks lines))
         \<and> concat (map (split_words []) (snd (wrap_line width chunks lines)))
             @ concat (map (split_words []) (fst (wrap_line width chunks lines)))
           = concat (map (split_words []) lines) @ concat (map (split_words []) chunks)"
proof -
  define chunks1 where
    "chunks1 = (if strip (hd chunks) = [] \<and> lines \<noteq> [] then tl chunks else chunks)"
  obtain chunks2 cur_line cur_len
    where f: "fill_line width chunks1 [] 0 = (chunks2, cur_line, cur_len)"
    by (metis prod_cases3)
  define r where "r = (if chunks2 \<noteq> [] \<and> length (hd chunks2) > width
             then handle_long_word chunks2 cur_line cur_len width
             else (chunks2, cur_line))"
  define cur_line2 where "cur_line2 = (if snd r \<noteq> [] \<and> strip (last (snd r)) = []
                       then butlast (snd r) else snd r)"
  have w: "wrap_line width chunks lines
           = (fst r, if cur_line2 \<noteq> [] then lines @ [concat cur_line2] else lines)"
    using f unfolding wrap_line_def chunks1_def[symmetric]
    by (simp add: Let_def r_def cur_line2_def split_beta)
  obtain c0 rest0 where ch: "chunks = c0 # rest0" using assms(1) by (cases chunks) auto
  have a1: "alternate chunks1" and f1: "fits width chunks1"
    and w1: "concat (map (split_words []) chunks1) = concat (map (split_words []) chunks)"
  proof -
    show "alternate chunks1"
      using assms(2) ch alternate_tl[of c0 rest0] by (simp add: chunks1_def)
    show "fits width chunks1"
      using assms(3) ch by (simp add: chunks1_def fits_def)
    show "concat (map (split_words []) chunks1) = concat (map (split_words []) chunks)"
      using ch strip_ws_chunk[of c0] ws_chunk_words[of c0] by (simp add: chunks1_def)
  qed
  have p2: "chunks1 = cur_line @ chunks2"
    using fill_line_concat[OF f] by simp
  have a2: "alternate cur_line" and a3: "alternate chunks2"
    using a1 alternate_append unfolding p2 by blast+
  have f3: "fits width chunks2"
    using f1 unfolding p2 by (simp add: fits_def)
  have main: "alternate (fst r) \<and> fits width (fst r)
      \<and> concat (map (split_words []) (fst r)) = concat (map (split_words []) chunks2)
      \<and> alternate cur_line2
      \<and> concat (map (split_words []) cur_line2) = concat (map (split_words []) cur_line)"
  proof (cases "chunks2 \<noteq> [] \<and> length (hd chunks2) > width")
    case True
    then obtain c rest where c2: "chunks2 = c # rest" by (cases chunks2) auto
    have wsc: "ws_chunk c" using f3 True c2 by (auto simp: fits_def)
    obtain e where h: "handle_long_word (c # rest) cur_line cur_len width
        = (drop e c # rest, cur_line @ [take e c])"
      using handle_long_word_form by blast
    have r: "r = (drop e c # rest, cur_line @ [take e c])"
      using True c2 h by (simp add: r_def)
    have "strip (take e c) = []"
      using wsc ws_chunk_take_drop ws_chunk_strip by blast
    then have cl2: "cur_line2 = cur_line"
      by (simp add: cur_line2_def r)
    have "alternate (drop e c # rest)"
      using a3 c2 wsc ws_chunk_take_drop alternate_tl alternate_ws_cons by blast
    moreover have "fits width (drop e c # rest)"
      using f3 c2 wsc ws_chunk_take_drop by (simp add: fits_def)
    moreover have "concat (map (split_words []) (drop e c # rest))
        = concat (map (split_words []) (c # rest))"
      using wsc ws_chunk_take_drop[of c e] ws_chunk_words by simp
    ultimately show ?thesis using r cl2 c2 a2 by simp
  next
    case False
    then have r: "r = (chunks2, cur_line)" unfolding r_def by (simp only: if_False)
    have "alternate cur_line2 \<and>
        concat (map (split_words []) cur_line2) = concat (map (split_words []) cur_line)"
    proof (cases "cur_line \<noteq> [] \<and> strip (last cur_line) = []")
      case True
      then have cl2: "cur_line2 = butlast cur_line" by (simp add: cur_line2_def r)
      have "cur_line = butlast cur_line @ [last cur_line]" using True by simp
      then have "concat (map (split_words []) cur_line)
          = concat (map (split_words []) (butlast cur_line)) @ split_words [] (last cur_line)"
        by (metis (no_types, lifting) append_Nil2 concat.simps concat_append list.simps(8,9) map_append)
      then show ?thesis
        using True cl2 a2 alternate_butlast strip_ws_chunk[of "last cur_line"]
          ws_chunk_words[of "last cur_line"] by simp
    next
      case False
      then have "cur_line2 = cur_line" by (auto simp: cur_line2_def r)
      then show ?thesis using a2 by simp
    qed
    then show ?thesis using r a3 f3 by simp
  qed
  have wc: "split_words [] (concat cur_line2) = concat (map (split_words []) cur_line2)"
    using main words_concat_alternate[of cur_line2] by blast
  have line: "concat (map (split_words []) (snd (wrap_line width chunks lines)))
      = concat (map (split_words []) lines) @ concat (map (split_words []) cur_line2)"
  proof (cases "cur_line2 = []")
    case True
    then show ?thesis by (simp add: w)
  next
    case False
    then have "snd (wrap_line width chunks lines) = lines @ [concat cur_line2]"
      by (simp add: w)
    then show ?thesis by (simp only: map_append concat_append list.map concat.simps wc append_Nil2)
  qed
  have total: "concat (map (split_words []) chunks)
      = concat (map (split_words []) cur_line) @ concat (map (split_words []) chunks2)"
    unfolding w1[symmetric] p2 by simp
  have fst_w: "fst (wrap_line width chunks lines) = fst r" by (simp add: w)
  from main have m1: "alternate (fst r)" and m2: "fits width (fst r)"
    and m3: "concat (map (split_words []) (fst r)) = concat (map (split_words []) chunks2)"
    and m5: "concat (map (split_words []) cur_line2) = concat (map (split_words []) cur_line)"
    by blast+
  show ?thesis
    unfolding fst_w line total m3 m5 using m1 m2 by simp
qed

lemma wrap_chunks_words:
  assumes "alternate chunks" and "fits width chunks"
  shows "concat (map (split_words []) (wrap_chunks width chunks lines))
         = concat (map (split_words []) lines) @ concat (map (split_words []) chunks)"
  using assms
proof (induction width chunks lines rule: wrap_chunks.induct)
  case (1 width chunks lines)
  show ?case
  proof (cases "chunks = []")
    case True
    then show ?thesis by simp
  next
    case False
    note step = wrap_line_words[OF False "1.prems", of lines]
    have "concat (map (split_words []) (wrap_chunks width (fst (wrap_line width chunks lines))
             (snd (wrap_line width chunks lines))))
          = concat (map (split_words []) (snd (wrap_line width chunks lines)))
            @ concat (map (split_words []) (fst (wrap_line width chunks lines)))"
      using "1.IH"[OF False, of "fst (wrap_line width chunks lines)"
          "snd (wrap_line width chunks lines)"] step
      by simp
    then show ?thesis
      using step by (simp add: wrap_chunks_step[OF False])
  qed
qed

lemma em_dash_no_hyphen: "c \<noteq> 45 \<Longrightarrow> \<not> em_dash rt behind (c # cs)"
  by (cases behind) (simp_all add: em_dash_def)

lemma word_more_no_hyphen:
  "45 \<notin> set cs \<Longrightarrow> word_more rt behind cs = length (takeWhile (\<lambda>x. \<not> tw_whitespace x) cs)"
  by (induction cs arbitrary: behind) (simp_all add: em_dash_no_hyphen)

lemma wordsep_split_alternate:
  assumes "45 \<notin> set xs" and "\<forall>x\<in>set xs. isspace x \<longleftrightarrow> tw_whitespace x"
  shows "alternate (wordsep_split rt behind xs) \<and> [] \<notin> set (wordsep_split rt behind xs)
         \<and> (xs \<noteq> [] \<and> tw_whitespace (hd xs)
              \<longrightarrow> (\<exists>d ds. wordsep_split rt behind xs = d # ds \<and> ws_chunk d \<and> d \<noteq> []))"
  using assms
proof (induction xs arbitrary: behind rule: length_induct)
  case (1 xs)
  show ?case
  proof (cases xs)
    case Nil
    then show ?thesis by simp
  next
    case (Cons c cs)
    define n where "n = chunk_more rt behind c cs"
    define chunk where "chunk = c # take n cs"
    define behind' where "behind' = rev (take n cs) @ c # behind"
    define rest where "rest = wordsep_split rt behind' (drop n cs)"
    have split: "wordsep_split rt behind xs = chunk # rest"
      by (simp add: Cons n_def chunk_def behind'_def rest_def Let_def)
    have ne: "chunk \<noteq> []" by (simp add: chunk_def)
    have sub: "set chunk \<subseteq> set xs"
      by (auto simp: chunk_def Cons dest: in_set_takeD)
    have nohy: "45 \<notin> set (drop n cs)"
      using "1.prems"(1) Cons by (auto dest: in_set_dropD)
    have same: "\<forall>x\<in>set (drop n cs). isspace x \<longleftrightarrow> tw_whitespace x"
      using "1.prems"(2) Cons by (auto dest: in_set_dropD)
    have "length (drop n cs) < length xs" by (simp add: Cons)
    then have ih: "alternate rest \<and> [] \<notin> set rest
        \<and> (drop n cs \<noteq> [] \<and> tw_whitespace (hd (drop n cs))
              \<longrightarrow> (\<exists>d ds. rest = d # ds \<and> ws_chunk d \<and> d \<noteq> []))"
      unfolding rest_def using "1.IH" nohy same by blast
    have first: "alternate (chunk # rest) \<and> (tw_whitespace c \<longrightarrow> ws_chunk chunk)"
    proof (cases "tw_whitespace c")
      case True
      then have n: "n = length (takeWhile tw_whitespace cs)"
        by (simp add: n_def chunk_more_def)
      have tk: "take n cs = takeWhile tw_whitespace cs"
        unfolding n by (rule takeWhile_eq_take[symmetric])
      have "\<forall>x\<in>set chunk. tw_whitespace x"
        using True by (auto simp: chunk_def tk dest: set_takeWhileD)
      then have "\<forall>x\<in>set chunk. isspace x"
        using "1.prems"(2) sub by blast
      then have ws: "ws_chunk chunk"
        by (simp add: ws_chunk_def list_all_iff)
      then have "alternate (chunk # rest)"
        using ih alternate_ws_cons by blast
      with ws show ?thesis by blast
    next
      case False
      then have c45: "c \<noteq> 45" using "1.prems"(1) Cons by auto
      have cs45: "45 \<notin> set cs" using "1.prems"(1) Cons by simp
      have n: "n = length (takeWhile (\<lambda>x. \<not> tw_whitespace x) cs)"
        using False c45 cs45 by (simp add: n_def chunk_more_def em_dash_no_hyphen word_more_no_hyphen)
      have tk: "take n cs = takeWhile (\<lambda>x. \<not> tw_whitespace x) cs"
        unfolding n by (rule takeWhile_eq_take[symmetric])
      have dr: "drop n cs = dropWhile (\<lambda>x. \<not> tw_whitespace x) cs"
        unfolding n by (rule dropWhile_eq_drop[symmetric])
      have "\<forall>x\<in>set chunk. \<not> tw_whitespace x"
        using False by (auto simp: chunk_def tk dest: set_takeWhileD)
      then have "\<forall>x\<in>set chunk. \<not> isspace x"
        using "1.prems"(2) sub by blast
      then have wc: "word_chunk chunk"
        using ne by (simp add: word_chunk_def list_all_iff)
      have "alternate (chunk # rest)"
      proof (cases "drop n cs = []")
        case True
        then have "rest = []" by (simp add: rest_def)
        then show ?thesis using wc by simp
      next
        case nonempty: False
        then have "dropWhile (\<lambda>x. \<not> tw_whitespace x) cs \<noteq> []" using dr by simp
        then have "\<not> \<not> tw_whitespace (hd (dropWhile (\<lambda>x. \<not> tw_whitespace x) cs))"
          by (rule hd_dropWhile)
        then have "tw_whitespace (hd (drop n cs))" using dr by simp
        then obtain d ds where "rest = d # ds" and "ws_chunk d" and "d \<noteq> []"
          using ih nonempty by blast
        then show ?thesis using wc ih by simp
      qed
      with False show ?thesis by blast
    qed
    have "[] \<notin> set (chunk # rest)" using ne ih by simp
    moreover have "tw_whitespace (hd xs) \<longrightarrow> ws_chunk chunk"
      using first Cons by simp
    ultimately show ?thesis
      unfolding split using first ne by blast
  qed
qed

lemma filter_nonempty_id: "[] \<notin> set chunks \<Longrightarrow> filter (\<lambda>c. c \<noteq> []) chunks = chunks"
  by (induction chunks) auto




subsection \<open>The decoder and the standard escape sequences\<close>

text \<open>
  The codec reads each standard escape sequence as the table says, so it computes the
  replacement of the specification.
\<close>

lemma radix_value_bound:
  "list_all (\<lambda>d. d < 16) ds \<Longrightarrow> radix_value 16 ch ds < 16 ^ length ds * (ch + 1)"
proof (induction ds arbitrary: ch)
  case Nil
  then show ?case by simp
next
  case (Cons d ds)
  then have "radix_value 16 (16 * ch + d) ds < 16 ^ length ds * (16 * ch + d + 1)"
    by simp
  also have "\<dots> \<le> 16 ^ length ds * (16 * (ch + 1))"
  proof (rule mult_le_mono2)
    show "16 * ch + d + 1 \<le> 16 * (ch + 1)" using Cons.prems by simp
  qed
  finally show ?case by (simp add: algebra_simps)
qed

lemma hex_value_less: "hex_digit c \<Longrightarrow> hex_value c < 16"
  by (auto simp: hex_digit_def hex_value_def)

lemma hex_escape_value:
  assumes "list_all hex_digit hs"
  shows "radix_value 16 0 (map hex_value hs) < 16 ^ length hs"
proof -
  have "list_all (\<lambda>d. d < 16) (map hex_value hs)"
    using assms by (induction hs) (simp_all add: hex_value_less)
  from radix_value_bound[OF this, of 0] show ?thesis by simp
qed

lemma hexescape_append:
  assumes "length hs = count" and "list_all hex_digit hs"
    and "radix_value 16 0 (map hex_value hs) \<le> 1114111"
  shows "hexescape count (hs @ s) = Some (radix_value 16 0 (map hex_value hs))"
  using assms by (simp add: hexescape_def Let_def)

lemma decode_simple:
  assumes "e \<in> {92, 39, 34, 97, 98, 102, 110, 114, 116, 118}"
  shows "unicode_escape_decode rt (92 # e # s)
         = emit [if e = 97 then 7 else if e = 98 then 8 else if e = 102 then 12
                 else if e = 110 then 10 else if e = 114 then 13 else if e = 116 then 9
                 else if e = 118 then 11 else e]
             (unicode_escape_decode rt s)"
  using assms by auto

lemma takeWhile_octal_digits:
  assumes "list_all octal_digit ds'" and "length ds' \<le> 2"
    and "length ds' = 2 \<or> s = [] \<or> \<not> octal_digit (hd s)"
  shows "takeWhile octal_digit (take 2 (ds' @ s)) = ds'"
proof (cases "length ds' = 2")
  case True
  then have "take 2 (ds' @ s) = ds'" by simp
  moreover have "takeWhile octal_digit ds' = ds'"
    using assms(1) by (simp add: list_all_iff)
  ultimately show ?thesis by (simp only:)
next
  case False
  then have short: "length ds' < 2" using assms(2) by simp
  have stop: "s = [] \<or> \<not> octal_digit (hd s)" using assms(3) False by simp
  have t: "take 2 (ds' @ s) = ds' @ take (2 - length ds') s" using short by simp
  have "takeWhile octal_digit (take (2 - length ds') s) = []"
  proof (cases s)
    case Nil
    then show ?thesis by simp
  next
    case (Cons x xs)
    then have "\<not> octal_digit x" using stop by simp
    moreover have "take (2 - length ds') (x # xs) = x # take (2 - length ds' - 1) xs"
      using short by (simp add: take_Cons')
    ultimately show ?thesis unfolding Cons by (simp only: takeWhile.simps if_False)
  qed
  moreover have "takeWhile octal_digit (ds' @ ys) = ds' @ takeWhile octal_digit ys" for ys
    using assms(1) by (simp add: list_all_iff)
  ultimately show ?thesis unfolding t by (simp only: append_Nil2)
qed

lemma decode_octal_step:
  assumes "octal_digit e"
  shows "unicode_escape_decode rt (92 # e # r)
         = emit [radix_value 8 0 (map (\<lambda>d. d - 48) (e # takeWhile octal_digit (take 2 r)))]
             (unicode_escape_decode rt (drop (length (takeWhile octal_digit (take 2 r))) r))"
proof -
  have ne: "e \<noteq> 10" "e \<noteq> 92" "e \<noteq> 39" "e \<noteq> 34" "e \<noteq> 98" "e \<noteq> 102" "e \<noteq> 116" "e \<noteq> 110"
    "e \<noteq> 114" "e \<noteq> 118" "e \<noteq> 97"
    using assms by (auto simp: octal_digit_def)
  show ?thesis
    by (subst unicode_escape_decode.simps) (simp only: ne assms if_False if_True Let_def simp_thms)
qed

lemma decode_octal:
  assumes "ds \<noteq> []" and "length ds \<le> 3" and "list_all octal_digit ds"
    and "\<not> (length ds < 3 \<and> s \<noteq> [] \<and> octal_digit (hd s))"
  shows "unicode_escape_decode rt (92 # ds @ s)
         = emit [radix_value 8 0 (map (\<lambda>d. d - 48) ds)] (unicode_escape_decode rt s)"
proof -
  obtain e ds' where ds: "ds = e # ds'" using assms(1) by (cases ds) auto
  have e: "octal_digit e" and ds': "list_all octal_digit ds'" and len: "length ds' \<le> 2"
    using assms(2,3) ds by simp_all
  have "length ds' = 2 \<or> s = [] \<or> \<not> octal_digit (hd s)"
    using assms(4) len ds by auto
  then have tw: "takeWhile octal_digit (take 2 (ds' @ s)) = ds'"
    using takeWhile_octal_digits[OF ds' len] by blast
  have "unicode_escape_decode rt (92 # ds @ s) = unicode_escape_decode rt (92 # e # (ds' @ s))"
    by (simp only: ds append_Cons)
  also have "\<dots> = emit [radix_value 8 0 (map (\<lambda>d. d - 48) (e # ds'))]
             (unicode_escape_decode rt (drop (length ds') (ds' @ s)))"
    by (simp only: decode_octal_step[OF e] tw)
  also have "\<dots> = emit [radix_value 8 0 (map (\<lambda>d. d - 48) ds)] (unicode_escape_decode rt s)"
    by (simp only: ds drop_append length_drop drop_all diff_self_eq_0 drop_0 order_refl append_Nil)
  finally show ?thesis .
qed

lemma decode_hex:
  assumes "e = 120 \<and> count = 2 \<or> e = 117 \<and> count = 4 \<or> e = 85 \<and> count = 8"
    and "length hs = count" and "list_all hex_digit hs"
    and "radix_value 16 0 (map hex_value hs) \<le> 1114111"
  shows "unicode_escape_decode rt (92 # (e # hs) @ s)
         = emit [radix_value 16 0 (map hex_value hs)] (unicode_escape_decode rt s)"
  using assms hexescape_append[OF assms(2,3,4), of s]
  by (auto simp: octal_digit_def)

lemma decode_named:
  assumes "name \<noteq> []" and "125 \<notin> set name" and "unicode_name rt name = Some ch"
  shows "unicode_escape_decode rt (92 # ([78, 123] @ name @ [125]) @ s)
         = emit [ch] (unicode_escape_decode rt s)"
proof -
  have "takeWhile (\<lambda>x. x \<noteq> 125) (name @ 125 # s) = name"
    using assms(2) by (induction name) auto
  then show ?thesis using assms by (simp add: octal_digit_def Let_def)
qed

lemma decode_escape:
  assumes "escape_sequence rt q ch"
    and "\<not> (list_all octal_digit q \<and> length q < 3 \<and> s \<noteq> [] \<and> octal_digit (hd s))"
  shows "unicode_escape_decode rt (92 # q @ s) = emit [ch] (unicode_escape_decode rt s)"
  using assms
proof (cases rule: escape_sequence.cases)
  case (octal)
  then show ?thesis using decode_octal[of q s rt] assms(2) by auto
next
  case (hex hs)
  have "radix_value 16 0 (map hex_value hs) < 16 ^ 2"
    using hex_escape_value[of hs] hex by simp
  then show ?thesis using decode_hex[of 120 2 hs rt s] hex by simp
next
  case (unicode16 hs)
  have "radix_value 16 0 (map hex_value hs) < 16 ^ 4"
    using hex_escape_value[of hs] unicode16 by simp
  then show ?thesis using decode_hex[of 117 4 hs rt s] unicode16 by simp
next
  case (unicode32 hs)
  then show ?thesis using decode_hex[of 85 8 hs rt s] by simp
next
  case (named name)
  then show ?thesis using decode_named[of name rt ch s] by simp
qed (simp_all add: decode_simple)

lemma decode_plain:
  assumes "c \<noteq> 92"
  shows "unicode_escape_decode rt (c # s) = emit [c] (unicode_escape_decode rt s)"
  using assms by (cases s) (simp_all add: emit_def)

lemma replaced_decode:
  "replaced rt s t \<Longrightarrow> unicode_escape_decode rt s = Inr t"
proof (induction rule: replaced.induct)
  case empty
  then show ?case by simp
next
  case (plain c s t)
  then show ?case by (simp add: decode_plain emit_def)
next
  case (escape q ch s t)
  then show ?case by (simp add: decode_escape emit_def)
qed

text \<open>
  C9, as amended. A raw string with no backslash is returned unchanged. A raw string with
  a backslash whose characters are all ASCII and whose backslash sequences are all
  standard escape sequences is returned with each sequence replaced by its character.
  A raw string with a backslash and a character that is not ASCII is refused with an
  encoding error, whatever its escape sequences are.
\<close>

theorem unescape_cases:
  "(92 \<notin> set raw \<longrightarrow> unescape rt raw = Inr raw)
   \<and> (92 \<in> set raw \<and> list_all (\<lambda>c. c < 128) raw \<and> replaced rt raw decoded
        \<longrightarrow> unescape rt raw = Inr decoded)
   \<and> (92 \<in> set raw \<and> \<not> list_all (\<lambda>c. c < 128) raw
        \<longrightarrow> unescape rt raw = Inl UnicodeEncodeError)"
  by (simp add: unescape_def ascii_encode_def replaced_decode)

text \<open>
  The raw string \<^verbatim>\<open>Fan\x201\n\<close> is decoded to \<^verbatim>\<open>Fan 1\<close> and a line feed; a string with
  no backslash is unchanged; a string with a letter outside ASCII and \<^verbatim>\<open>\n\<close> is refused.
\<close>

lemma replaced_example:
  "replaced ascii_runtime (ustr ''Fan'' @ [92] @ ustr ''x20'' @ ustr ''1'' @ [92] @ ustr ''n'')
     (ustr ''Fan 1'' @ [10])"
proof -
  have n: "replaced ascii_runtime ([92] @ [110] @ []) [10]"
    using replaced.escape[OF escape_sequence.line_feed replaced.empty, of ascii_runtime] by simp
  have "replaced ascii_runtime (49 # [92] @ [110] @ []) (49 # [10])"
    using n by (intro replaced.plain) simp_all
  then have "replaced ascii_runtime (92 # (120 # [50, 48]) @ [49, 92, 110])
               (radix_value 16 0 (map hex_value [50, 48]) # [49, 10])"
    by (intro replaced.escape escape_sequence.hex) (simp_all add: hex_digit_def octal_digit_def)
  then have "replaced ascii_runtime ([92, 120, 50, 48, 49, 92, 110]) ([32, 49, 10])"
    by (simp add: hex_value_def)
  then have "replaced ascii_runtime (70 # 97 # 110 # [92, 120, 50, 48, 49, 92, 110])
      (70 # 97 # 110 # [32, 49, 10])"
    by (intro replaced.plain) simp_all
  then show ?thesis by simp
qed

theorem unescape_cases_witness:
  "unescape ascii_runtime (ustr ''Fan 1'') = Inr (ustr ''Fan 1'')
   \<and> unescape ascii_runtime (ustr ''Fan'' @ [92] @ ustr ''x20'' @ ustr ''1'' @ [92] @ ustr ''n'')
       = Inr (ustr ''Fan 1'' @ [10])
   \<and> unescape ascii_runtime ([233] @ [92] @ ustr ''n'') = Inl UnicodeEncodeError"
  using unescape_cases [of "ustr ''Fan 1''" ascii_runtime]
    unescape_cases [of "ustr ''Fan'' @ [92] @ ustr ''x20'' @ ustr ''1'' @ [92] @ ustr ''n''"
      ascii_runtime "ustr ''Fan 1'' @ [10]"]
    unescape_cases [of "[233] @ [92] @ ustr ''n''" ascii_runtime]
    replaced_example
  by simp

text \<open>
  C9, as stated, fails: in the raw string of the letter U+00E9 followed by \<^verbatim>\<open>\n\<close>, the
  only backslash sequence is a standard one and the replacement exists, yet the decoder
  does not succeed: it raises \<^verbatim>\<open>UnicodeEncodeError\<close>.
\<close>

theorem unescape_non_ascii_counterexample:
  "replaced ascii_runtime [233, 92, 110] [233, 10]
   \<and> unescape ascii_runtime [233, 92, 110] = Inl UnicodeEncodeError"
proof -
  have "replaced ascii_runtime ([92] @ [110] @ []) [10]"
    using replaced.escape[OF escape_sequence.line_feed replaced.empty, of ascii_runtime] by simp
  then have "replaced ascii_runtime (233 # [92] @ [110] @ []) (233 # [10])"
    by (intro replaced.plain) simp_all
  then show ?thesis by (simp add: unescape_def ascii_encode_def)
qed

end
